theory Spec2Isabelle
  imports Main "HOL-Library.AList"
begin

section \<open>JavaScript values used by the endpoints\<close>

subsection \<open>Strings\<close>

text \<open>
  A JavaScript string is modelled as a \<^typ>\<open>string\<close> whose characters are the code units
  U+0000 .. U+00FF. Host names live in this range; the case mappings and white space of
  higher code units are outside the model.

  \<open>String.prototype.trim\<close> removes WhiteSpace and LineTerminator code points from both
  ends; below U+0100 these are TAB, LF, VT, FF, CR, SPACE and NBSP.
\<close>

definition isWhiteSpace :: "char \<Rightarrow> bool" where
  "isWhiteSpace c = ((of_char c :: nat) \<in> {9, 10, 11, 12, 13, 32, 160})"

definition trim :: "string \<Rightarrow> string" where
  "trim s = rev (dropWhile isWhiteSpace (rev (dropWhile isWhiteSpace s)))"

text \<open>
  \<open>String.prototype.toLowerCase\<close>: below U+0100 the upper-case letters are A-Z and
  U+00C0 .. U+00DE without the multiplication sign U+00D7; each maps to the code unit 32
  above it.
\<close>

definition toLowerChar :: "char \<Rightarrow> char" where
  "toLowerChar c =
     (let n = (of_char c :: nat)
      in if (65 \<le> n \<and> n \<le> 90) \<or> (192 \<le> n \<and> n \<le> 222 \<and> n \<noteq> 215)
         then char_of (n + 32) else c)"

definition toLowerCase :: "string \<Rightarrow> string" where
  "toLowerCase s = map toLowerChar s"

text \<open>
  The expression \<open>url.trim().toLowerCase()\<close>, which both endpoints apply to the host
  string (full-details.js line 64, batch handler lines 115, 203 and 212); the batch handler
  calls its value \<open>normalized\<close>.
\<close>

definition normalized :: "string \<Rightarrow> string" where
  "normalized url = toLowerCase (trim url)"

text \<open>
  \<open>encodeURIComponent\<close>: the unreserved characters \<open>A-Z a-z 0-9 - _ . ! ~ * ' ( )\<close>
  stay, every other code unit is written as the percent-escaped bytes of its UTF-8
  encoding (one byte below U+0080, two bytes from U+0080 to U+00FF).
\<close>

definition hexDigit :: "nat \<Rightarrow> char" where
  "hexDigit d = ''0123456789ABCDEF'' ! (d mod 16)"

definition percentByte :: "nat \<Rightarrow> string" where
  "percentByte b = [CHR ''%'', hexDigit (b div 16), hexDigit (b mod 16)]"

definition unreserved :: "char \<Rightarrow> bool" where
  "unreserved c =
     (let n = (of_char c :: nat)
      in (65 \<le> n \<and> n \<le> 90) \<or> (97 \<le> n \<and> n \<le> 122) \<or> (48 \<le> n \<and> n \<le> 57)
         \<or> c \<in> set ''-_.!~*()'' \<or> n = 39)"

definition encodeChar :: "char \<Rightarrow> string" where
  "encodeChar c =
     (let n = (of_char c :: nat)
      in if unreserved c then [c]
         else if n < 128 then percentByte n
         else percentByte (192 + n div 64) @ percentByte (128 + n mod 64))"

definition encodeURIComponent :: "string \<Rightarrow> string" where
  "encodeURIComponent s = concat (map encodeChar s)"

subsection \<open>JSON values, objects and errors\<close>

datatype json =
    JNull
  | JBool bool
  | JNum int
  | JStr string
  | JArr "json list"
  | JObj "(string \<times> json) list"

text \<open>
  A plain object is the list of its own enumerable properties in insertion order.
  \<open>obj[key] = value\<close> on an object created by \<open>{}\<close> adds or overwrites an own property,
  except for the key \<open>__proto__\<close>: that name is an accessor inherited from
  \<open>Object.prototype\<close>, so the assignment replaces the prototype of \<open>obj\<close> and creates no own
  property. The own properties are what \<open>Object.entries\<close> and the JSON serializer see.
\<close>

definition set_property :: "(string \<times> 'v) list \<Rightarrow> string \<Rightarrow> 'v \<Rightarrow> (string \<times> 'v) list" where
  "set_property obj key v = (if key = ''__proto__'' then obj else AList.update key v obj)"

text \<open>A parsed JSON object keeps the last of several members with one name.\<close>

definition get_property :: "(string \<times> 'v) list \<Rightarrow> string \<Rightarrow> 'v option" where
  "get_property obj key = map_of (rev obj) key"

text \<open>
  A thrown \<open>Error\<close>: its \<open>name\<close>, the name of its constructor and its \<open>message\<close>. A function
  that may throw returns \<open>js_error + 'a\<close>, the error on the left.
\<close>

record js_error =
  err_name :: string
  err_constructor :: string
  err_message :: string

section \<open>Data model\<close>

text \<open>
  Modelled from the spec: the class \<open>Site\<close> (site.js) is not among the sources. Section 3
  gives its attributes: canonical host, optional port, optional path, and the derived
  \<open>siteKey = host[:port][/path]\<close>, which is what \<open>asSiteKey\<close> returns.
\<close>

record site =
  hostname :: string
  port :: "nat option"
  path :: "string option"

fun decimal :: "nat \<Rightarrow> string" where
  "decimal n = (if n < 10 then [char_of (48 + n)] else decimal (n div 10) @ [char_of (48 + n mod 10)])"

declare decimal.simps [simp del]

definition asSiteKey :: "site \<Rightarrow> string" where
  "asSiteKey s =
     hostname s
     @ (case port s of None \<Rightarrow> [] | Some p \<Rightarrow> CHR '':'' # decimal p)
     @ (case path s of None \<Rightarrow> [] | Some p \<Rightarrow> p)"

text \<open>
  One test result is an object with the fields \<open>expectation\<close>, \<open>result\<close>, \<open>pass\<close>,
  \<open>scoreModifier\<close>, \<open>data\<close>, possibly \<open>scoreDescription\<close> and test-specific fields.
\<close>

type_synonym test_result = "(string \<times> json) list"

text \<open>The \<open>scan\<close> part of a scanner result, with the fields the README lists.\<close>

record scan_info =
  algorithmVersion :: nat
  grade :: "string option"
  error :: "string option"
  score :: "int option"
  statusCode :: "int option"
  testsFailed :: nat
  testsPassed :: nat
  testsQuantity :: nat
  responseHeaders :: "(string \<times> string) list"

text \<open>What \<open>scan(site)\<close> resolves to: \<open>{scan, tests}\<close>.\<close>

record scan_result =
  result_scan :: scan_info
  result_tests :: "(string \<times> test_result) list"

text \<open>
  A persisted scan row, with the columns the endpoints read (\<open>scanRow.id\<close>,
  \<open>scanRow.start_time\<close>, ...) and the site key it belongs to. Times are seconds.
\<close>

record scan_row =
  row_id :: nat
  row_site_key :: string
  row_start_time :: nat
  row_algorithm_version :: nat
  row_error :: "string option"
  row_grade :: "string option"
  row_score :: "int option"
  row_status_code :: "int option"
  row_tests_failed :: nat
  row_tests_passed :: nat
  row_tests_quantity :: nat

text \<open>The response object both endpoints build (full-details.js lines 112-128).\<close>

record response =
  res_id :: nat
  res_details_url :: string
  res_algorithm_version :: nat
  res_scanned_at :: nat
  res_error :: "string option"
  res_grade :: "string option"
  res_score :: "int option"
  res_status_code :: "int option"
  res_tests_failed :: nat
  res_tests_passed :: nat
  res_tests_quantity :: nat
  res_fullDetails_scan :: scan_info
  res_fullDetails_tests :: "(string \<times> test_result) list"

text \<open>
  One entry of a batch response: either the response object with \<open>success: true\<close>
  (\<open>scanWithFullDetails\<close>), or \<open>{success: false, error, errorType, message}\<close>
  (the \<open>catch\<close> of \<open>scanSingleUrl\<close>).
\<close>

datatype batch_entry =
    Succeeded response
  | Failed (failed_error: string) (failed_errorType: string) (failed_message: string)

fun success :: "batch_entry \<Rightarrow> bool" where
  "success (Succeeded r) = True"
| "success (Failed e t m) = False"

section \<open>Collaborators that are not among the sources\<close>

text \<open>
  The configuration and the functions the endpoints import are parameters of the model:
  \<^item> \<open>fromSiteString\<close>: \<open>Site.fromSiteString\<close>, throws on an invalid host string;
  \<^item> \<open>checkSitename\<close>: throws when the host cannot be resolved;
  \<^item> \<open>scanner\<close>: what a retrieval of the site with the given key finds at the given
    time; the left side is a thrown error;
  \<^item> \<open>cooldown\<close> and \<open>baseUrl\<close>: \<open>CONFIG.api.cooldown\<close> and \<open>CONFIG.api.baseUrl\<close>
    (\<open>None\<close> when undefined);
  \<^item> \<open>bodyError\<close>: the error the schema validator reports for a rejected body;
  \<^item> \<open>errorStatus\<close>: the HTTP status with which the server's error handler answers an
    error.
\<close>

record env =
  fromSiteString :: "string \<Rightarrow> js_error + site"
  checkSitename :: "site \<Rightarrow> js_error + site"
  scanner :: "string \<Rightarrow> nat \<Rightarrow> js_error + scan_result"
  cooldown :: nat
  baseUrl :: "string option"
  bodyError :: "json \<Rightarrow> js_error"
  errorStatus :: "js_error \<Rightarrow> nat"

text \<open>
  The state the endpoints act on, in the place of \<open>pool\<close>: the table of scan rows (newest
  first), the clock, and a log of what happened on the network and in \<open>executeScan\<close>.
\<close>

datatype event = Retrieval string | ExecuteScan string

record world =
  scans :: "scan_row list"
  clock :: nat
  events :: "event list"

text \<open>
  \<open>scan(site)\<close> of scanner/index.js, not among the sources: it is given the site only, so
  it reads the network and leaves the table alone. Every call is one retrieval.
\<close>

definition scan :: "env \<Rightarrow> world \<Rightarrow> site \<Rightarrow> (js_error + scan_result) \<times> world" where
  "scan env w site =
     (scanner env (asSiteKey site) (clock w),
      w\<lparr>events := events w @ [Retrieval (asSiteKey site)]\<rparr>)"

text \<open>
  Modelled from the spec: \<open>selectScanLatestScanByHost\<close> (database/repository.js) is not
  among the sources. Section 6: "if a cached row for siteKey is younger than cooldown,
  return it". The result is the latest row of the site key whose age is below \<open>age\<close>
  seconds, or \<open>None\<close> for JavaScript's \<open>undefined\<close>.
\<close>

definition selectScanLatestScanBySite :: "world \<Rightarrow> string \<Rightarrow> nat \<Rightarrow> scan_row option" where
  "selectScanLatestScanBySite w siteKey age =
     find (\<lambda>r. row_site_key r = siteKey \<and> clock w < row_start_time r + age) (scans w)"

text \<open>
  Modelled from the spec: \<open>executeScan\<close> (api/v2/utils.js) is not among the sources.
  Section 6: "run a scan, persist a summary row, return it"; section 7: a retrieval
  failure is "persisted as a scan row with error set and grade/score null". The row
  gets the next id and the current time.
\<close>

definition summaryRow :: "world \<Rightarrow> string \<Rightarrow> js_error + scan_result \<Rightarrow> scan_row" where
  "summaryRow w siteKey outcome =
     (case outcome of
        Inl err \<Rightarrow>
          \<lparr>row_id = Suc (length (scans w)), row_site_key = siteKey,
           row_start_time = clock w, row_algorithm_version = 0,
           row_error = Some (err_name err), row_grade = None, row_score = None,
           row_status_code = None, row_tests_failed = 0, row_tests_passed = 0,
           row_tests_quantity = 0\<rparr>
      | Inr r \<Rightarrow>
          \<lparr>row_id = Suc (length (scans w)), row_site_key = siteKey,
           row_start_time = clock w,
           row_algorithm_version = algorithmVersion (result_scan r),
           row_error = error (result_scan r), row_grade = grade (result_scan r),
           row_score = score (result_scan r),
           row_status_code = statusCode (result_scan r),
           row_tests_failed = testsFailed (result_scan r),
           row_tests_passed = testsPassed (result_scan r),
           row_tests_quantity = testsQuantity (result_scan r)\<rparr>)"

text \<open>
  Modelled from the spec: \<open>executeScan\<close> itself, which runs the scanner once and persists
  the summary row of what it found.
\<close>

definition executeScan :: "env \<Rightarrow> world \<Rightarrow> site \<Rightarrow> scan_row \<times> world" where
  "executeScan env w site =
     (let (outcome, w1) = scan env (w\<lparr>events := events w @ [ExecuteScan (asSiteKey site)]\<rparr>) site;
          row = summaryRow w1 (asSiteKey site) outcome
      in (row, w1\<lparr>scans := row # scans w1\<rparr>))"

section \<open>The scanFullDetails endpoint (api/v2/scan/full-details.js)\<close>

text \<open>
  The local \<open>detailsUrl\<close> (lines 95-101). \<open>if (CONFIG.api.baseUrl)\<close> takes the first branch
  for a non-empty string; \<open>undefined\<close> and the empty string are falsy.
\<close>

definition detailsUrl :: "env \<Rightarrow> site \<Rightarrow> string" where
  "detailsUrl env site =
     (case baseUrl env of
        None \<Rightarrow>
          ''https://developer.mozilla.org/en-US/observatory/analyze?host=''
            @ encodeURIComponent (asSiteKey site)
      | Some base \<Rightarrow>
          if base \<noteq> []
          then base @ ''/analyze?host='' @ encodeURIComponent (asSiteKey site)
          else ''https://developer.mozilla.org/en-US/observatory/analyze?host=''
                 @ encodeURIComponent (asSiteKey site))"

text \<open>
  \<open>const { scoreDescription, ...rest } = test\<close> (line 106): \<open>rest\<close> has every own property
  of \<open>test\<close> but \<open>scoreDescription\<close>. The local \<open>tests\<close> (lines 104-109) maps every entry
  \<open>[key, test]\<close> to \<open>[key, rest]\<close>.
\<close>

definition rest :: "test_result \<Rightarrow> test_result" where
  "rest test = filter (\<lambda>(field, v). field \<noteq> ''scoreDescription'') test"

definition tests :: "scan_result \<Rightarrow> (string \<times> test_result) list" where
  "tests fullScanResult = map (\<lambda>(key, test). (key, rest test)) (result_tests fullScanResult)"

text \<open>
  \<open>scanOrReturnRecentWithFullDetails(pool, site, age)\<close>, lines 83-131. An error thrown by
  \<open>scan(site)\<close> leaves the function at line 93.
\<close>

definition scanOrReturnRecentWithFullDetails ::
  "env \<Rightarrow> world \<Rightarrow> site \<Rightarrow> nat \<Rightarrow> (js_error + response) \<times> world" where
  "scanOrReturnRecentWithFullDetails env pool site age =
     (let (scanRow, pool1) =
            (case selectScanLatestScanBySite pool (asSiteKey site) age of
               None \<Rightarrow> executeScan env pool site
             | Some row \<Rightarrow> (row, pool));
          (outcome, pool2) = scan env pool1 site
      in case outcome of
           Inl err \<Rightarrow> (Inl err, pool2)
         | Inr fullScanResult \<Rightarrow>
             (Inr \<lparr>res_id = row_id scanRow,
                   res_details_url = detailsUrl env site,
                   res_algorithm_version = row_algorithm_version scanRow,
                   res_scanned_at = row_start_time scanRow,
                   res_error = row_error scanRow,
                   res_grade = row_grade scanRow,
                   res_score = row_score scanRow,
                   res_status_code = row_status_code scanRow,
                   res_tests_failed = row_tests_failed scanRow,
                   res_tests_passed = row_tests_passed scanRow,
                   res_tests_quantity = row_tests_quantity scanRow,
                   res_fullDetails_scan = result_scan fullScanResult,
                   res_fullDetails_tests = tests fullScanResult\<rparr>,
              pool2))"

text \<open>The handler of \<open>POST /scanFullDetails\<close>, lines 59-72, applied to \<open>query.host\<close>.\<close>

definition scanFullDetails :: "env \<Rightarrow> world \<Rightarrow> string \<Rightarrow> (js_error + response) \<times> world" where
  "scanFullDetails env pool host =
     (let hostname = toLowerCase (trim host)
      in case fromSiteString env hostname of
           Inl err \<Rightarrow> (Inl err, pool)
         | Inr site0 \<Rightarrow>
             (case checkSitename env site0 of
                Inl err \<Rightarrow> (Inl err, pool)
              | Inr site \<Rightarrow> scanOrReturnRecentWithFullDetails env pool site (cooldown env)))"

section \<open>The scanBatchFullDetails endpoint\<close>

definition DEFAULT_CONCURRENCY :: nat where
  "DEFAULT_CONCURRENCY = 5"

definition MAX_BATCH_SIZE :: nat where
  "MAX_BATCH_SIZE = 10"

text \<open>
  \<open>scanWithFullDetails(pool, site, age)\<close>, lines 138-183 of the batch file: the body of
  \<open>scanOrReturnRecentWithFullDetails\<close> once more, returning the object with
  \<open>success: true\<close>.
\<close>

definition scanWithFullDetails ::
  "env \<Rightarrow> world \<Rightarrow> site \<Rightarrow> nat \<Rightarrow> (js_error + batch_entry) \<times> world" where
  "scanWithFullDetails env pool site age =
     (let (scanRow, pool1) =
            (case selectScanLatestScanBySite pool (asSiteKey site) age of
               None \<Rightarrow> executeScan env pool site
             | Some row \<Rightarrow> (row, pool));
          (outcome, pool2) = scan env pool1 site
      in case outcome of
           Inl err \<Rightarrow> (Inl err, pool2)
         | Inr fullScanResult \<Rightarrow>
             (Inr (Succeeded
                \<lparr>res_id = row_id scanRow,
                 res_details_url = detailsUrl env site,
                 res_algorithm_version = row_algorithm_version scanRow,
                 res_scanned_at = row_start_time scanRow,
                 res_error = row_error scanRow,
                 res_grade = row_grade scanRow,
                 res_score = row_score scanRow,
                 res_status_code = row_status_code scanRow,
                 res_tests_failed = row_tests_failed scanRow,
                 res_tests_passed = row_tests_passed scanRow,
                 res_tests_quantity = row_tests_quantity scanRow,
                 res_fullDetails_scan = result_scan fullScanResult,
                 res_fullDetails_tests = tests fullScanResult\<rparr>),
              pool2))"

text \<open>
  The \<open>catch\<close> block of \<open>scanSingleUrl\<close> (lines 120-128); \<open>x || d\<close> is \<open>d\<close> for an empty
  string.
\<close>

definition caught :: "js_error \<Rightarrow> batch_entry" where
  "caught err =
     Failed (if err_name err = [] then ''error-unknown'' else err_name err)
            (if err_constructor err = [] then ''Error'' else err_constructor err)
            (if err_message err = [] then ''Unknown error occurred'' else err_message err)"

text \<open>\<open>scanSingleUrl(pool, url)\<close>, lines 113-129: every error thrown in the \<open>try\<close> is caught.\<close>

definition scanSingleUrl :: "env \<Rightarrow> world \<Rightarrow> string \<Rightarrow> batch_entry \<times> world" where
  "scanSingleUrl env pool url =
     (let hostname = toLowerCase (trim url)
      in case fromSiteString env hostname of
           Inl err \<Rightarrow> (caught err, pool)
         | Inr site0 \<Rightarrow>
             (case checkSitename env site0 of
                Inl err \<Rightarrow> (caught err, pool)
              | Inr site \<Rightarrow>
                  (case scanWithFullDetails env pool site (cooldown env) of
                     (Inl err, pool') \<Rightarrow> (caught err, pool')
                   | (Inr entry, pool') \<Rightarrow> (entry, pool'))))"

text \<open>
  \<open>runWithConcurrency(items, fn, limit)\<close>, lines 85-105, as a function: the result of
  the schedule in which every call of \<open>fn\<close> settles before the next one starts. The
  callback of line 93 stores each result with \<open>results[item] = result\<close>. The interleaved
  schedules are the step relation \<open>rwc_step\<close> below.
\<close>

fun rwc_loop ::
  "(world \<Rightarrow> string \<Rightarrow> 'r \<times> world) \<Rightarrow> string list \<Rightarrow> (string \<times> 'r) list \<Rightarrow> world
   \<Rightarrow> (string \<times> 'r) list \<times> world" where
  "rwc_loop fn [] results pool = (results, pool)"
| "rwc_loop fn (item # items) results pool =
     (let (result, pool') = fn pool item
      in rwc_loop fn items (set_property results item result) pool')"

definition runWithConcurrency ::
  "string list \<Rightarrow> (world \<Rightarrow> string \<Rightarrow> 'r \<times> world) \<Rightarrow> nat \<Rightarrow> world
   \<Rightarrow> (string \<times> 'r) list \<times> world" where
  "runWithConcurrency items fn limit pool = rwc_loop fn items [] pool"

text \<open>
  The filter of lines 201-209: \<open>seen\<close> holds the normalized forms met so far, and a url is
  kept when its normalized form is new.
\<close>

fun uniqueUrls :: "string list \<Rightarrow> string list \<Rightarrow> string list" where
  "uniqueUrls seen [] = []"
| "uniqueUrls seen (url # urls) =
     (if normalized url \<in> set seen then uniqueUrls seen urls
      else url # uniqueUrls (normalized url # seen) urls)"

definition normalizedUrls :: "string list \<Rightarrow> string list" where
  "normalizedUrls urls = map (\<lambda>u. toLowerCase (trim u)) (uniqueUrls [] urls)"

text \<open>The handler of \<open>POST /scanBatchFullDetails\<close>, lines 196-221, applied to \<open>body.urls\<close>.\<close>

definition scanBatchFullDetails_handler ::
  "env \<Rightarrow> world \<Rightarrow> string list \<Rightarrow> (string \<times> batch_entry) list \<times> world" where
  "scanBatchFullDetails_handler env pool urls =
     runWithConcurrency (normalizedUrls urls) (scanSingleUrl env) DEFAULT_CONCURRENCY pool"

text \<open>
  The \<open>body\<close> part of \<open>scanBatchFullDetailsSchema\<close> (lines 31-42): an object with the
  required member \<open>urls\<close>, an array of 1 to \<open>MAX_BATCH_SIZE\<close> strings. The route gives the
  schema to Fastify, whose validator coerces types by default (Ajv with
  \<open>coerceTypes: 'array'\<close>) before it rejects:
  \<^item> where an array is expected, a string, number, boolean or \<open>null\<close> becomes the array of
    that one value; an object is a type error;
  \<^item> where a string is expected, an array of one element is replaced by its element;
    then a number or boolean becomes its text, \<open>null\<close> the empty string; an object or any
    other array is a type error;
  \<^item> the top level must be an object: nothing is coerced to an object.
  \<open>minItems\<close> and \<open>maxItems\<close> are checked on the array after coercion. The function
  returns the urls the handler reads from a body that passes. Numbers are the integers,
  written in decimal as JavaScript writes them below \<open>10^21\<close>.
\<close>

definition numberString :: "int \<Rightarrow> string" where
  "numberString n = (if n < 0 then CHR ''-'' # decimal (nat (- n)) else decimal (nat n))"

fun scalarString :: "json \<Rightarrow> string option" where
  "scalarString (JStr s) = Some s"
| "scalarString (JNum n) = Some (numberString n)"
| "scalarString (JBool b) = Some (if b then ''true'' else ''false'')"
| "scalarString JNull = Some []"
| "scalarString (JArr items) = None"
| "scalarString (JObj members) = None"

fun coerceString :: "json \<Rightarrow> string option" where
  "coerceString (JArr [item]) = scalarString item"
| "coerceString item = scalarString item"

fun coerceArray :: "json \<Rightarrow> json list option" where
  "coerceArray (JArr items) = Some items"
| "coerceArray (JObj members) = None"
| "coerceArray scalar = Some [scalar]"

fun string_items :: "json list \<Rightarrow> string list option" where
  "string_items [] = Some []"
| "string_items (item # items) =
     (case coerceString item of
        None \<Rightarrow> None
      | Some s \<Rightarrow> map_option ((#) s) (string_items items))"

definition scanBatchFullDetailsSchema :: "json \<Rightarrow> string list option" where
  "scanBatchFullDetailsSchema body =
     (case body of
        JObj members \<Rightarrow>
          (case get_property members ''urls'' of
             None \<Rightarrow> None
           | Some v \<Rightarrow>
               (case coerceArray v of
                  None \<Rightarrow> None
                | Some items \<Rightarrow>
                    (case string_items items of
                       Some urls \<Rightarrow>
                         if 1 \<le> length urls \<and> length urls \<le> MAX_BATCH_SIZE then Some urls
                         else None
                     | None \<Rightarrow> None)))
      | _ \<Rightarrow> None)"

text \<open>
  A reply of the endpoint: status 200 with the results object, or an error status with
  the body \<open>{error, message}\<close>.
\<close>

datatype reply =
    Reply200 "(string \<times> batch_entry) list"
  | ReplyError nat string string

text \<open>
  The reply to a body the validator rejects. The error handler of the server is not
  among the sources: the status is the parameter \<open>errorStatus\<close> (section 6 of the spec says
  422 for validation errors), and the body carries the name and the message of the error.
\<close>

definition validationError :: "env \<Rightarrow> js_error \<Rightarrow> reply" where
  "validationError env err = ReplyError (errorStatus env err) (err_name err) (err_message err)"

text \<open>
  One request to \<open>POST /scanBatchFullDetails\<close>: the body is validated against the schema
  before the handler runs.
\<close>

definition scanBatchFullDetails :: "env \<Rightarrow> world \<Rightarrow> json \<Rightarrow> reply \<times> world" where
  "scanBatchFullDetails env pool body =
     (case scanBatchFullDetailsSchema body of
        None \<Rightarrow> (validationError env (bodyError env body), pool)
      | Some urls \<Rightarrow>
          (let (results, pool') = scanBatchFullDetails_handler env pool urls
           in (Reply200 results, pool')))"

section \<open>Site canonicalization\<close>

text \<open>
  Modelled from the spec: \<open>Site.fromSiteString\<close> (site.js) is not among the sources. Section
  4.1: "The canonicalizer strips any scheme (http://, https://), strips query and
  fragment, lower-cases the host, preserves a non-empty path verbatim, and parses an
  optional port. It rejects inputs that are empty, contain whitespace, fail the hostname
  grammar, or specify a port outside 1..65535. It also rejects bare IP literals [...].
  Fails with invalid-hostname for syntactic rejection"; section 7 names \<open>invalid-port\<close>.
\<close>

definition invalidHostname :: js_error where
  "invalidHostname =
     \<lparr>err_name = ''invalid-hostname'', err_constructor = ''InvalidHostNameError'',
      err_message = ''hostname is invalid''\<rparr>"

definition invalidPort :: js_error where
  "invalidPort =
     \<lparr>err_name = ''invalid-port'', err_constructor = ''InvalidPortError'',
      err_message = ''port is invalid''\<rparr>"

text \<open>
  Modelled from the spec: the first steps of \<open>Site.fromSiteString\<close>, which "strips any
  scheme (http://, https://), strips query and fragment".
\<close>

definition stripScheme :: "string \<Rightarrow> string" where
  "stripScheme s =
     (if take 7 s = ''http://'' then drop 7 s
      else if take 8 s = ''https://'' then drop 8 s
      else s)"

definition stripQueryFragment :: "string \<Rightarrow> string" where
  "stripQueryFragment s = takeWhile (\<lambda>c. c \<noteq> CHR ''?'' \<and> c \<noteq> CHR ''#'') s"

text \<open>
  Modelled from the spec: the host check of \<open>Site.fromSiteString\<close>. Section 3: "host
  matches the RFC-1035 hostname grammar (labels of letters/digits/hyphens, not starting or
  ending with hyphen), contains at least one dot, or equals localhost". The host is
  lower-cased before it is checked, so the letters are a-z; credentials fail the grammar
  at \<open>@\<close>. "It also rejects bare IP literals": a host of digits and dots.
\<close>

definition isDigit :: "char \<Rightarrow> bool" where
  "isDigit c = (48 \<le> (of_char c :: nat) \<and> (of_char c :: nat) \<le> 57)"

definition isLabelChar :: "char \<Rightarrow> bool" where
  "isLabelChar c = ((97 \<le> (of_char c :: nat) \<and> (of_char c :: nat) \<le> 122) \<or> isDigit c \<or> c = CHR ''-'')"

fun labels :: "string \<Rightarrow> string list" where
  "labels [] = [[]]"
| "labels (c # cs) =
     (if c = CHR ''.'' then [] # labels cs
      else (case labels cs of [] \<Rightarrow> [[c]] | l # ls \<Rightarrow> (c # l) # ls))"

definition validLabel :: "string \<Rightarrow> bool" where
  "validLabel l = (l \<noteq> [] \<and> list_all isLabelChar l \<and> hd l \<noteq> CHR ''-'' \<and> last l \<noteq> CHR ''-'')"

definition validHostname :: "string \<Rightarrow> bool" where
  "validHostname h =
     (list_all validLabel (labels h) \<and> (CHR ''.'' \<in> set h \<or> h = ''localhost''))"

definition isIpLiteral :: "string \<Rightarrow> bool" where
  "isIpLiteral h = list_all (\<lambda>c. isDigit c \<or> c = CHR ''.'') h"

text \<open>
  Modelled from the spec: the port of \<open>Site.fromSiteString\<close>, which "parses an optional
  port" and rejects "a port outside 1..65535".
\<close>

definition parsePort :: "string \<Rightarrow> nat option" where
  "parsePort ds =
     (if ds \<noteq> [] \<and> list_all isDigit ds
      then Some (foldl (\<lambda>n c. 10 * n + (of_char c - 48)) 0 ds)
      else None)"

definition splitBefore :: "char \<Rightarrow> string \<Rightarrow> string \<times> string" where
  "splitBefore d s = (takeWhile (\<lambda>c. c \<noteq> d) s, dropWhile (\<lambda>c. c \<noteq> d) s)"

definition optionalPort :: "string \<Rightarrow> js_error + nat option" where
  "optionalPort portPart =
     (case portPart of
        [] \<Rightarrow> Inr None
      | colon # ds \<Rightarrow>
          (case parsePort ds of
             None \<Rightarrow> Inl invalidPort
           | Some n \<Rightarrow> if 1 \<le> n \<and> n \<le> 65535 then Inr (Some n) else Inl invalidPort))"

text \<open>
  Modelled from the spec: \<open>Site.fromSiteString\<close> itself. The input without scheme, query
  and fragment is split before the first \<open>/\<close> into authority and path ("preserves a
  non-empty path verbatim"), the authority before the first \<open>:\<close> into host and port. Empty
  inputs and inputs with white space are rejected. The lookup of the host is the
  separate function \<open>checkSitename\<close>.
\<close>

definition makeSite :: "string \<Rightarrow> string \<Rightarrow> string \<Rightarrow> js_error + site" where
  "makeSite host portPart p =
     (if \<not> validHostname host \<or> isIpLiteral host then Inl invalidHostname
      else
        (case optionalPort portPart of
           Inl err \<Rightarrow> Inl err
         | Inr n \<Rightarrow> Inr \<lparr>hostname = host, port = n, path = (if p = [] then None else Some p)\<rparr>))"

definition Site_fromSiteString :: "string \<Rightarrow> js_error + site" where
  "Site_fromSiteString input =
     (if input = [] \<or> list_ex isWhiteSpace input then Inl invalidHostname
      else
        (case splitBefore (CHR ''/'') (stripQueryFragment (stripScheme input)) of
           (authority, p) \<Rightarrow>
             (case splitBefore (CHR '':'') authority of
                (h, portPart) \<Rightarrow> makeSite (toLowerCase h) portPart p)))"

text \<open>
  Modelled from the spec: \<open>canonicalize\<close> of section 8, property 1, from the user's string
  to the canonical site key.
\<close>

definition canonicalize :: "string \<Rightarrow> js_error + string" where
  "canonicalize input =
     (case Site_fromSiteString input of Inl err \<Rightarrow> Inl err | Inr s \<Rightarrow> Inr (asSiteKey s))"

section \<open>An example environment\<close>

text \<open>
  A small instance of the collaborators, used to run the endpoints on concrete requests:
  host strings are parsed by the canonicalizer above, every host resolves, a scan finds
  grade B before second 30 and grade A+ from then on, and errors are answered with
  status 400.
\<close>

definition example_tests :: "(string \<times> test_result) list" where
  "example_tests =
     [(''x-frame-options'',
       [(''expectation'', JStr ''deny''), (''pass'', JBool True), (''result'', JStr ''deny''),
        (''scoreModifier'', JNum 0), (''data'', JNull), (''scoreDescription'', JStr ''ok'')])]"

definition example_scanner :: "string \<Rightarrow> nat \<Rightarrow> js_error + scan_result" where
  "example_scanner siteKey t =
     Inr \<lparr>result_scan =
            \<lparr>algorithmVersion = 5,
             grade = Some (if t < 30 then ''B'' else ''A+''),
             error = None,
             score = Some (if t < 30 then 70 else 105),
             statusCode = Some 200,
             testsFailed = (if t < 30 then 1 else 0),
             testsPassed = (if t < 30 then 9 else 10),
             testsQuantity = 10,
             responseHeaders = []\<rparr>,
          result_tests = example_tests\<rparr>"

definition example_env :: env where
  "example_env =
     \<lparr>fromSiteString = Site_fromSiteString,
      checkSitename = Inr,
      scanner = example_scanner,
      cooldown = 60,
      baseUrl = Some ''https://obs.test'',
      bodyError = (\<lambda>body. \<lparr>err_name = ''validation'', err_constructor = ''Error'',
                                err_message = ''body is invalid''\<rparr>),
      errorStatus = (\<lambda>err. 400)\<rparr>"

definition example_site :: site where
  "example_site = \<lparr>hostname = ''a.io'', port = None, path = None\<rparr>"

definition empty_world :: world where
  "empty_world = \<lparr>scans = [], clock = 0, events = []\<rparr>"

text \<open>
  The state after one request for \<open>a.io\<close> at second 0, the row that request persisted,
  and the same table seen at second 40.
\<close>

definition cached_row :: scan_row where
  "cached_row =
     \<lparr>row_id = 1, row_site_key = ''a.io'', row_start_time = 0, row_algorithm_version = 5,
      row_error = None, row_grade = Some ''B'', row_score = Some 70,
      row_status_code = Some 200, row_tests_failed = 1, row_tests_passed = 9,
      row_tests_quantity = 10\<rparr>"

definition cached_world :: world where
  "cached_world =
     \<lparr>scans = [cached_row], clock = 40,
      events = [ExecuteScan ''a.io'', Retrieval ''a.io'', Retrieval ''a.io'']\<rparr>"


section \<open>Auxiliary definitions\<close>

text \<open>
  Lines 84-89 of \<open>scanOrReturnRecentWithFullDetails\<close> (139-143 of \<open>scanWithFullDetails\<close>):
  the row the summary fields are read from, and the state after it was found or made.
\<close>

definition rowStage :: "env \<Rightarrow> world \<Rightarrow> site \<Rightarrow> nat \<Rightarrow> scan_row \<times> world" where
  "rowStage env pool site age =
     (case selectScanLatestScanBySite pool (asSiteKey site) age of
        None \<Rightarrow> executeScan env pool site
      | Some row \<Rightarrow> (row, pool))"

text \<open>
  Lines 86-131 of \<open>scanOrReturnRecentWithFullDetails\<close>, run on the answer \<open>found\<close> of the
  lookup of line 84. The function awaits the lookup, so another request can be handled
  between the lookup and these lines; \<open>afterLookup\<close> is then run on a later state than the
  one the lookup saw.
\<close>

definition afterLookup ::
  "env \<Rightarrow> world \<Rightarrow> site \<Rightarrow> scan_row option \<Rightarrow> (js_error + response) \<times> world" where
  "afterLookup env pool site found =
     (let (scanRow, pool1) =
            (case found of
               None \<Rightarrow> executeScan env pool site
             | Some row \<Rightarrow> (row, pool));
          (outcome, pool2) = scan env pool1 site
      in case outcome of
           Inl err \<Rightarrow> (Inl err, pool2)
         | Inr fullScanResult \<Rightarrow>
             (Inr \<lparr>res_id = row_id scanRow,
                   res_details_url = detailsUrl env site,
                   res_algorithm_version = row_algorithm_version scanRow,
                   res_scanned_at = row_start_time scanRow,
                   res_error = row_error scanRow,
                   res_grade = row_grade scanRow,
                   res_score = row_score scanRow,
                   res_status_code = row_status_code scanRow,
                   res_tests_failed = row_tests_failed scanRow,
                   res_tests_passed = row_tests_passed scanRow,
                   res_tests_quantity = row_tests_quantity scanRow,
                   res_fullDetails_scan = result_scan fullScanResult,
                   res_fullDetails_tests = tests fullScanResult\<rparr>,
              pool2))"


definition reply_keys :: "reply \<Rightarrow> string list" where
  "reply_keys rep = (case rep of Reply200 results \<Rightarrow> map fst results | ReplyError c e m \<Rightarrow> [])"

text \<open>What holds of every site the canonicalizer returns.\<close>

definition canonicalSite :: "site \<Rightarrow> bool" where
  "canonicalSite st =
     (validHostname (hostname st) \<and> \<not> isIpLiteral (hostname st)
      \<and> (case port st of None \<Rightarrow> True | Some n \<Rightarrow> 1 \<le> n \<and> n \<le> 65535)
      \<and> (case path st of
            None \<Rightarrow> True
          | Some p \<Rightarrow> p \<noteq> [] \<and> hd p = CHR ''/''
              \<and> (\<forall>c \<in> set p. c \<noteq> CHR ''?'' \<and> c \<noteq> CHR ''#'' \<and> \<not> isWhiteSpace c)))"

section \<open>The schedules of runWithConcurrency\<close>

text \<open>
  \<open>runWithConcurrency\<close> with its interleavings. JavaScript runs one task at a time, so a
  state of the function is: the items the \<open>for\<close> loop has not reached, the promises in the
  set \<open>executing\<close> (numbered by their call, with their item), the object \<open>results\<close>, the
  number of calls of \<open>fn\<close> made, and whether the loop is suspended at
  \<open>await Promise.race(executing)\<close>.
\<close>

record 'r rwc_state =
  todo :: "string list"
  executing :: "(nat \<times> string) list"
  results :: "(string \<times> 'r) list"
  started :: nat
  awaiting :: bool

definition rwc_init :: "string list \<Rightarrow> 'r rwc_state" where
  "rwc_init items = \<lparr>todo = items, executing = [], results = [], started = 0, awaiting = False\<rparr>"

text \<open>
  Two things can happen. \<open>call\<close>: the loop, when it is not suspended, takes the next item,
  calls \<open>fn(item)\<close>, adds the promise to \<open>executing\<close> and suspends when
  \<open>executing.size >= limit\<close> (lines 91-100). \<open>settle\<close>: a pending call of \<open>fn\<close> fulfils with
  some result; its callback stores the result under the item, deletes the promise from
  \<open>executing\<close> (lines 92-95), and a suspended loop resumes. Which call settles, when, and
  with which result is left open, so every schedule and every \<open>fn\<close> that does not reject
  is covered; \<open>scanSingleUrl\<close> catches every error and does not reject. When the loop is
  through and \<open>executing\<close> is empty, \<open>Promise.all\<close> resolves and \<open>results\<close> is returned.
\<close>

inductive rwc_step :: "nat \<Rightarrow> 'r rwc_state \<Rightarrow> 'r rwc_state \<Rightarrow> bool" for limit :: nat where
  call:
    "\<not> awaiting s \<Longrightarrow> todo s = item # items \<Longrightarrow>
     rwc_step limit s
       (s\<lparr>todo := items,
          executing := (started s, item) # executing s,
          started := Suc (started s),
          awaiting := (limit \<le> Suc (length (executing s)))\<rparr>)"
| settle:
    "(p, item) \<in> set (executing s) \<Longrightarrow>
     rwc_step limit s
       (s\<lparr>results := set_property (results s) item result,
          executing := removeAll (p, item) (executing s),
          awaiting := False\<rparr>)"

text \<open>The invariant of the loop: at most \<open>limit\<close> pending calls, fewer while the loop runs.\<close>

definition in_flight_bounded :: "nat \<Rightarrow> 'r rwc_state \<Rightarrow> bool" where
  "in_flight_bounded limit s =
     (length (executing s) \<le> limit \<and> (\<not> awaiting s \<longrightarrow> length (executing s) < limit))"

section \<open>Properties of the two scan functions\<close>

lemma scanWithFullDetails_eq:
  "scanWithFullDetails env pool site age =
     (case scanOrReturnRecentWithFullDetails env pool site age of
        (Inl err, pool') \<Rightarrow> (Inl err, pool')
      | (Inr r, pool') \<Rightarrow> (Inr (Succeeded r), pool'))"
  by (simp add: scanWithFullDetails_def scanOrReturnRecentWithFullDetails_def Let_def
      split: option.splits prod.splits sum.splits)

lemma executeScan_eq:
  "executeScan env pool site =
     (summaryRow pool (asSiteKey site) (scanner env (asSiteKey site) (clock pool)),
      pool\<lparr>events := events pool @ [ExecuteScan (asSiteKey site), Retrieval (asSiteKey site)],
           scans := summaryRow pool (asSiteKey site) (scanner env (asSiteKey site) (clock pool))
                    # scans pool\<rparr>)"
  by (simp add: executeScan_def scan_def summaryRow_def Let_def split: sum.splits)

lemma clock_rowStage: "clock (snd (rowStage env pool site age)) = clock pool"
  by (simp add: rowStage_def executeScan_eq split: option.splits)

lemma sorr_eq:
  "scanOrReturnRecentWithFullDetails env pool site age =
     (case scanner env (asSiteKey site) (clock pool) of
        Inl err \<Rightarrow> Inl err
      | Inr full \<Rightarrow>
          Inr \<lparr>res_id = row_id (fst (rowStage env pool site age)),
               res_details_url = detailsUrl env site,
               res_algorithm_version = row_algorithm_version (fst (rowStage env pool site age)),
               res_scanned_at = row_start_time (fst (rowStage env pool site age)),
               res_error = row_error (fst (rowStage env pool site age)),
               res_grade = row_grade (fst (rowStage env pool site age)),
               res_score = row_score (fst (rowStage env pool site age)),
               res_status_code = row_status_code (fst (rowStage env pool site age)),
               res_tests_failed = row_tests_failed (fst (rowStage env pool site age)),
               res_tests_passed = row_tests_passed (fst (rowStage env pool site age)),
               res_tests_quantity = row_tests_quantity (fst (rowStage env pool site age)),
               res_fullDetails_scan = result_scan full,
               res_fullDetails_tests = tests full\<rparr>,
      (snd (rowStage env pool site age))
        \<lparr>events := events (snd (rowStage env pool site age)) @ [Retrieval (asSiteKey site)]\<rparr>)"
proof -
  obtain row pool1 where rs: "rowStage env pool site age = (row, pool1)"
    by (cases "rowStage env pool site age")
  then have c: "clock pool1 = clock pool"
    using clock_rowStage [of env pool site age] by simp
  from rs have "(case selectScanLatestScanBySite pool (asSiteKey site) age of
        None \<Rightarrow> executeScan env pool site
      | Some row \<Rightarrow> (row, pool)) = (row, pool1)"
    by (simp add: rowStage_def)
  then show ?thesis
    by (simp add: scanOrReturnRecentWithFullDetails_def rs scan_def c split: sum.splits)
qed


lemma sorr_details_url:
  "fst (scanOrReturnRecentWithFullDetails env pool site age) = Inr r \<Longrightarrow>
     res_details_url r = detailsUrl env site"
  by (auto simp: sorr_eq split: sum.splits)

lemma swfd_Inr:
  "fst (scanWithFullDetails env pool site age) = Inr entry \<Longrightarrow>
     \<exists>r. entry = Succeeded r \<and> fst (scanOrReturnRecentWithFullDetails env pool site age) = Inr r"
  by (auto simp: scanWithFullDetails_eq split: prod.splits sum.splits)


lemma example_parse: "Site_fromSiteString ''a.io'' = Inr example_site"
  by code_simp

lemma example_parse_proto: "Site_fromSiteString ''__proto__'' = Inl invalidHostname"
  by code_simp

lemma example_response:
  "fst (scanOrReturnRecentWithFullDetails example_env empty_world example_site 60) =
     Inr \<lparr>res_id = 1, res_details_url = ''https://obs.test/analyze?host=a.io'',
          res_algorithm_version = 5, res_scanned_at = 0, res_error = None,
          res_grade = Some ''B'', res_score = Some 70, res_status_code = Some 200,
          res_tests_failed = 1, res_tests_passed = 9, res_tests_quantity = 10,
          res_fullDetails_scan =
            \<lparr>algorithmVersion = 5, grade = Some ''B'', error = None, score = Some 70,
             statusCode = Some 200, testsFailed = 1, testsPassed = 9, testsQuantity = 10,
             responseHeaders = []\<rparr>,
          res_fullDetails_tests =
            [(''x-frame-options'',
              [(''expectation'', JStr ''deny''), (''pass'', JBool True),
               (''result'', JStr ''deny''), (''scoreModifier'', JNum 0), (''data'', JNull)])]\<rparr>"
  by (simp add: sorr_eq rowStage_def selectScanLatestScanBySite_def executeScan_eq summaryRow_def
      example_env_def empty_world_def example_site_def example_scanner_def example_tests_def
      tests_def rest_def detailsUrl_def asSiteKey_def encodeURIComponent_def encodeChar_def
      unreserved_def)

text \<open>
  Claim C7. In every response of \<open>scanOrReturnRecentWithFullDetails\<close> (the scanFullDetails
  endpoint) and of \<open>scanWithFullDetails\<close> (the entries of scanBatchFullDetails), the field
  \<open>details_url\<close> is \<open>baseUrl + "/analyze?host=" + encodeURIComponent(siteKey)\<close> when a
  non-empty \<open>baseUrl\<close> is configured, and the MDN Observatory analyze URL of the site key
  when \<open>baseUrl\<close> is undefined or empty.
\<close>

theorem details_url_from_baseUrl:
  assumes "fst (scanOrReturnRecentWithFullDetails env pool site age) = Inr r
           \<or> fst (scanWithFullDetails env pool site age) = Inr (Succeeded r)"
  shows "(\<forall>base. baseUrl env = Some base \<and> base \<noteq> [] \<longrightarrow>
            res_details_url r = base @ ''/analyze?host='' @ encodeURIComponent (asSiteKey site))
       \<and> (baseUrl env = None \<or> baseUrl env = Some [] \<longrightarrow>
            res_details_url r =
              ''https://developer.mozilla.org/en-US/observatory/analyze?host=''
                @ encodeURIComponent (asSiteKey site))"
proof -
  from assms have "fst (scanOrReturnRecentWithFullDetails env pool site age) = Inr r"
    by (auto dest: swfd_Inr)
  then have "res_details_url r = detailsUrl env site" by (rule sorr_details_url)
  then show ?thesis by (auto simp: detailsUrl_def)
qed

theorem details_url_from_baseUrl_witness:
  "baseUrl example_env = Some ''https://obs.test''
   \<and> res_details_url
        (projr (fst (scanOrReturnRecentWithFullDetails example_env empty_world example_site 60)))
       = ''https://obs.test'' @ ''/analyze?host='' @ encodeURIComponent (asSiteKey example_site)"
proof -
  have b: "baseUrl example_env = Some ''https://obs.test''" by (simp add: example_env_def)
  have "fst (scanOrReturnRecentWithFullDetails example_env empty_world example_site 60)
        = Inr (projr (fst (scanOrReturnRecentWithFullDetails example_env empty_world example_site 60)))"
    by (simp add: example_response)
  then have "fst (scanOrReturnRecentWithFullDetails example_env empty_world example_site 60)
        = Inr (projr (fst (scanOrReturnRecentWithFullDetails example_env empty_world example_site 60)))
      \<or> fst (scanWithFullDetails example_env empty_world example_site 60)
        = Inr (Succeeded (projr (fst (scanOrReturnRecentWithFullDetails example_env empty_world example_site 60))))"
    by (rule disjI1)
  from details_url_from_baseUrl [OF this] b show ?thesis by simp
qed

lemma map_of_rest:
  "map_of (rest test) field = (if field = ''scoreDescription'' then None else map_of test field)"
  unfolding rest_def by (induction test) auto

lemma tests_keys: "map fst (tests full) = map fst (result_tests full)"
  by (simp add: tests_def case_prod_unfold)

lemma tests_nth:
  "i < length (result_tests full) \<Longrightarrow>
     snd (tests full ! i) = rest (snd (result_tests full ! i))"
  by (simp add: tests_def case_prod_unfold)

lemma sorr_fullDetails:
  assumes "fst (scanOrReturnRecentWithFullDetails env pool site age) = Inr r"
  shows "\<exists>full. scanner env (asSiteKey site) (clock pool) = Inr full
           \<and> res_fullDetails_scan r = result_scan full
           \<and> res_fullDetails_tests r = tests full"
  using assms by (auto simp: sorr_eq split: sum.splits)

text \<open>
  Claim C6. In every response of \<open>scanOrReturnRecentWithFullDetails\<close> and of
  \<open>scanWithFullDetails\<close> the tests have the keys of the in-memory scan result, in its
  order; every emitted test has no field \<open>scoreDescription\<close>, and each of its other fields
  has the value it has in the scan result.
\<close>

theorem scoreDescription_removed:
  assumes "fst (scanOrReturnRecentWithFullDetails env pool site age) = Inr r
           \<or> fst (scanWithFullDetails env pool site age) = Inr (Succeeded r)"
  shows "\<exists>full. scanner env (asSiteKey site) (clock pool) = Inr full
           \<and> map fst (res_fullDetails_tests r) = map fst (result_tests full)
           \<and> (\<forall>i < length (result_tests full). \<forall>field.
                 map_of (snd (res_fullDetails_tests r ! i)) field =
                   (if field = ''scoreDescription'' then None
                    else map_of (snd (result_tests full ! i)) field))"
proof -
  from assms have "fst (scanOrReturnRecentWithFullDetails env pool site age) = Inr r"
    by (auto dest: swfd_Inr)
  then obtain full where full: "scanner env (asSiteKey site) (clock pool) = Inr full"
    and t: "res_fullDetails_tests r = tests full"
    using sorr_fullDetails by blast
  have "map fst (res_fullDetails_tests r) = map fst (result_tests full)"
    by (simp add: t tests_keys)
  moreover have "\<forall>i < length (result_tests full). \<forall>field.
                 map_of (snd (res_fullDetails_tests r ! i)) field =
                   (if field = ''scoreDescription'' then None
                    else map_of (snd (result_tests full ! i)) field)"
    by (simp add: t tests_nth map_of_rest)
  ultimately show ?thesis using full by blast
qed

lemma example_scan_tests:
  "scanner example_env (asSiteKey example_site) (clock empty_world) = Inr full \<Longrightarrow>
     result_tests full = example_tests"
  by (auto simp: example_env_def example_scanner_def)

theorem scoreDescription_removed_witness:
  "map_of (snd (res_fullDetails_tests
      (projr (fst (scanOrReturnRecentWithFullDetails example_env empty_world example_site 60))) ! 0))
      ''scoreDescription'' = None
   \<and> map_of (snd (res_fullDetails_tests
      (projr (fst (scanOrReturnRecentWithFullDetails example_env empty_world example_site 60))) ! 0))
      ''pass'' = Some (JBool True)
   \<and> map_of (snd (example_tests ! 0)) ''scoreDescription'' = Some (JStr ''ok'')"
proof -
  let ?r = "projr (fst (scanOrReturnRecentWithFullDetails example_env empty_world example_site 60))"
  have "fst (scanOrReturnRecentWithFullDetails example_env empty_world example_site 60) = Inr ?r"
    by (simp add: example_response)
  then have "fst (scanOrReturnRecentWithFullDetails example_env empty_world example_site 60) = Inr ?r
      \<or> fst (scanWithFullDetails example_env empty_world example_site 60) = Inr (Succeeded ?r)"
    by (rule disjI1)
  from scoreDescription_removed [OF this] obtain full where
    full: "scanner example_env (asSiteKey example_site) (clock empty_world) = Inr full"
    and fields: "\<forall>i < length (result_tests full). \<forall>field.
                 map_of (snd (res_fullDetails_tests ?r ! i)) field =
                   (if field = ''scoreDescription'' then None
                    else map_of (snd (result_tests full ! i)) field)"
    by blast
  from full have t: "result_tests full = example_tests" by (rule example_scan_tests)
  have "0 < length (result_tests full)" by (simp add: t example_tests_def)
  with fields have "\<forall>field. map_of (snd (res_fullDetails_tests ?r ! 0)) field =
                   (if field = ''scoreDescription'' then None
                    else map_of (snd (example_tests ! 0)) field)"
    unfolding t by blast
  then show ?thesis by (simp add: example_tests_def)
qed

lemma scanFullDetails_eq:
  assumes "fromSiteString env (toLowerCase (trim host)) = Inr site0"
    and "checkSitename env site0 = Inr site"
  shows "scanFullDetails env pool host =
           scanOrReturnRecentWithFullDetails env pool site (cooldown env)"
  using assms by (simp add: scanFullDetails_def)

lemma scanFullDetails_Inr:
  assumes "fst (scanFullDetails env pool host) = Inr r"
  shows "\<exists>site0 site. fromSiteString env (toLowerCase (trim host)) = Inr site0
           \<and> checkSitename env site0 = Inr site
           \<and> scanFullDetails env pool host =
               scanOrReturnRecentWithFullDetails env pool site (cooldown env)"
  using assms by (auto simp: scanFullDetails_def split: sum.splits)

lemma sorr_world:
  "snd (scanOrReturnRecentWithFullDetails env pool site age) =
     (snd (rowStage env pool site age))
       \<lparr>events := events (snd (rowStage env pool site age)) @ [Retrieval (asSiteKey site)]\<rparr>"
  by (simp add: sorr_eq)

lemma sorr_scan:
  "scan env (snd (rowStage env pool site age)) site =
     (scanner env (asSiteKey site) (clock pool),
      snd (scanOrReturnRecentWithFullDetails env pool site age))"
  by (simp add: scan_def sorr_world clock_rowStage)

lemma sorr_summary:
  assumes "fst (scanOrReturnRecentWithFullDetails env pool site age) = Inr r"
  shows "res_id r = row_id (fst (rowStage env pool site age))
       \<and> res_grade r = row_grade (fst (rowStage env pool site age))
       \<and> res_score r = row_score (fst (rowStage env pool site age))
       \<and> res_status_code r = row_status_code (fst (rowStage env pool site age))
       \<and> res_tests_passed r = row_tests_passed (fst (rowStage env pool site age))
       \<and> res_tests_failed r = row_tests_failed (fst (rowStage env pool site age))
       \<and> res_tests_quantity r = row_tests_quantity (fst (rowStage env pool site age))
       \<and> res_error r = row_error (fst (rowStage env pool site age))
       \<and> res_scanned_at r = row_start_time (fst (rowStage env pool site age))"
  using assms by (auto simp: sorr_eq split: sum.splits)

lemma rowStage_cached:
  "selectScanLatestScanBySite pool (asSiteKey site) age = Some cached \<Longrightarrow>
     rowStage env pool site age = (cached, pool)"
  by (simp add: rowStage_def)

lemma rowStage_fresh:
  "selectScanLatestScanBySite pool (asSiteKey site) age = None \<Longrightarrow>
     rowStage env pool site age = executeScan env pool site"
  by (simp add: rowStage_def)

lemma scans_executeScan:
  "scans (snd (executeScan env pool site)) = fst (executeScan env pool site) # scans pool"
  by (simp add: executeScan_eq)

text \<open>
  Claim C2. For every call of the scanFullDetails endpoint that returns a response: when
  the latest row of the site key is younger than the cooldown, that row supplies \<open>id\<close>,
  \<open>grade\<close>, \<open>score\<close>, \<open>status_code\<close>, \<open>tests_passed\<close>, \<open>tests_failed\<close>, \<open>tests_quantity\<close>,
  \<open>error\<close> and \<open>scanned_at\<close>; otherwise \<open>executeScan\<close> runs, its row is added to the table
  and supplies them. In both cases \<open>scan(site)\<close> is then run on the resulting state, and
  its result gives \<open>fullDetails.scan\<close> and (without \<open>scoreDescription\<close>) \<open>fullDetails.tests\<close>.
  \<open>scanWithFullDetails\<close> of the batch endpoint is the same function up to \<open>success: true\<close>
  (lemma \<open>scanWithFullDetails_eq\<close>).
\<close>

theorem summary_from_row_and_fresh_fullDetails:
  assumes "scanFullDetails env pool host = (Inr r, pool')"
  shows "\<exists>site0 site row pool1 full.
           fromSiteString env (toLowerCase (trim host)) = Inr site0
         \<and> checkSitename env site0 = Inr site
         \<and> (case selectScanLatestScanBySite pool (asSiteKey site) (cooldown env) of
               Some cached \<Rightarrow> row = cached \<and> pool1 = pool
             | None \<Rightarrow> executeScan env pool site = (row, pool1)
                        \<and> scans pool' = row # scans pool)
         \<and> res_id r = row_id row \<and> res_grade r = row_grade row
         \<and> res_score r = row_score row \<and> res_status_code r = row_status_code row
         \<and> res_tests_passed r = row_tests_passed row
         \<and> res_tests_failed r = row_tests_failed row
         \<and> res_tests_quantity r = row_tests_quantity row
         \<and> res_error r = row_error row \<and> res_scanned_at r = row_start_time row
         \<and> scan env pool1 site = (Inr full, pool')
         \<and> res_fullDetails_scan r = result_scan full
         \<and> res_fullDetails_tests r = tests full"
proof -
  from assms have "fst (scanFullDetails env pool host) = Inr r" by simp
  then obtain site0 site where
    s0: "fromSiteString env (toLowerCase (trim host)) = Inr site0"
    and s: "checkSitename env site0 = Inr site"
    and eq: "scanFullDetails env pool host =
               scanOrReturnRecentWithFullDetails env pool site (cooldown env)"
    using scanFullDetails_Inr by blast
  define row where "row = fst (rowStage env pool site (cooldown env))"
  define pool1 where "pool1 = snd (rowStage env pool site (cooldown env))"
  from assms eq have out: "fst (scanOrReturnRecentWithFullDetails env pool site (cooldown env)) = Inr r"
    and w: "snd (scanOrReturnRecentWithFullDetails env pool site (cooldown env)) = pool'"
    by simp_all
  from sorr_fullDetails [OF out] obtain full where
    full: "scanner env (asSiteKey site) (clock pool) = Inr full"
    and fs: "res_fullDetails_scan r = result_scan full"
    and ft: "res_fullDetails_tests r = tests full"
    by blast
  have sc: "scan env pool1 site = (Inr full, pool')"
    unfolding pool1_def by (simp add: sorr_scan full w)
  have stage: "case selectScanLatestScanBySite pool (asSiteKey site) (cooldown env) of
               Some cached \<Rightarrow> row = cached \<and> pool1 = pool
             | None \<Rightarrow> executeScan env pool site = (row, pool1)
                        \<and> scans pool' = row # scans pool"
  proof (cases "selectScanLatestScanBySite pool (asSiteKey site) (cooldown env)")
    case None
    then have rs: "rowStage env pool site (cooldown env) = executeScan env pool site"
      by (rule rowStage_fresh)
    have "scans pool' = scans pool1"
      using w by (simp add: sorr_world pool1_def [symmetric] flip: w)
    also have "\<dots> = row # scans pool"
      by (simp add: pool1_def row_def rs scans_executeScan)
    finally show ?thesis using None by (simp add: row_def pool1_def rs)
  next
    case (Some cached)
    then show ?thesis by (simp add: row_def pool1_def rowStage_cached)
  qed
  from sorr_summary [OF out] s0 s stage sc fs ft show ?thesis
    unfolding row_def [symmetric] by blast
qed

lemma example_normalized: "toLowerCase (trim ''a.io'') = ''a.io''"
  by code_simp

lemma example_endpoint:
  "scanFullDetails example_env pool ''a.io'' =
     scanOrReturnRecentWithFullDetails example_env pool example_site 60"
proof (rule trans [OF scanFullDetails_eq])
  show "fromSiteString example_env (toLowerCase (trim ''a.io'')) = Inr example_site"
    by (simp add: example_normalized example_env_def example_parse)
  show "checkSitename example_env example_site = Inr example_site"
    by (simp add: example_env_def)
  show "scanOrReturnRecentWithFullDetails example_env pool example_site (cooldown example_env) =
        scanOrReturnRecentWithFullDetails example_env pool example_site 60"
    by (simp add: example_env_def)
qed

theorem summary_from_row_and_fresh_fullDetails_witness:
  "scanFullDetails example_env empty_world ''a.io'' =
     (Inr (projr (fst (scanFullDetails example_env empty_world ''a.io''))),
      snd (scanFullDetails example_env empty_world ''a.io''))
   \<and> (\<exists>row full.
         res_id (projr (fst (scanFullDetails example_env empty_world ''a.io''))) = row_id row
       \<and> row \<in> set (scans (snd (scanFullDetails example_env empty_world ''a.io'')))
       \<and> res_fullDetails_tests (projr (fst (scanFullDetails example_env empty_world ''a.io'')))
           = tests full)"
proof -
  let ?r = "projr (fst (scanFullDetails example_env empty_world ''a.io''))"
  let ?w = "snd (scanFullDetails example_env empty_world ''a.io'')"
  have "fst (scanFullDetails example_env empty_world ''a.io'') = Inr ?r"
    by (simp add: example_endpoint example_response)
  then have h: "scanFullDetails example_env empty_world ''a.io'' = (Inr ?r, ?w)"
    by (simp add: prod_eq_iff)
  have none: "selectScanLatestScanBySite empty_world key age = None" for key age
    by (simp add: selectScanLatestScanBySite_def empty_world_def)
  from summary_from_row_and_fresh_fullDetails [OF h] obtain site0 site row pool1 full where
    "case selectScanLatestScanBySite empty_world (asSiteKey site) (cooldown example_env) of
               Some cached \<Rightarrow> row = cached \<and> pool1 = empty_world
             | None \<Rightarrow> executeScan example_env empty_world site = (row, pool1)
                        \<and> scans ?w = row # scans empty_world"
    and "res_id ?r = row_id row"
    and "res_fullDetails_tests ?r = tests full"
    by blast
  then have "res_id ?r = row_id row \<and> row \<in> set (scans ?w) \<and> res_fullDetails_tests ?r = tests full"
    by (simp add: none)
  with h show ?thesis by blast
qed

lemma cached_example:
  "fst (scanFullDetails example_env cached_world ''a.io'') =
     Inr (projr (fst (scanFullDetails example_env cached_world ''a.io'')))
   \<and> res_scanned_at (projr (fst (scanFullDetails example_env cached_world ''a.io'')))
       < clock cached_world
   \<and> res_score (projr (fst (scanFullDetails example_env cached_world ''a.io'')))
       \<noteq> score (res_fullDetails_scan (projr (fst (scanFullDetails example_env cached_world ''a.io''))))"
  unfolding example_endpoint
  by (simp add: sorr_eq rowStage_def selectScanLatestScanBySite_def
      cached_world_def cached_row_def example_env_def example_site_def example_scanner_def asSiteKey_def)

text \<open>
  Claim C10. For every scanFullDetails request that finds a row of the site key younger
  than the cooldown: the table of scans is unchanged, the only event is the one retrieval
  of the in-memory scan (\<open>executeScan\<close> is not called), the summary fields are those of the
  cached row and \<open>fullDetails\<close> is the scan made now. The summary may describe an older
  scan than \<open>fullDetails\<close>: there is a request whose \<open>scanned_at\<close> lies before the clock and
  whose summary score differs from the score in \<open>fullDetails.scan\<close>.
\<close>

theorem cached_request_persists_nothing:
  assumes "fromSiteString env (toLowerCase (trim host)) = Inr site0"
    and "checkSitename env site0 = Inr site"
    and "selectScanLatestScanBySite pool (asSiteKey site) (cooldown env) = Some cached"
  shows "scans (snd (scanFullDetails env pool host)) = scans pool
       \<and> events (snd (scanFullDetails env pool host)) = events pool @ [Retrieval (asSiteKey site)]
       \<and> (\<forall>r. fst (scanFullDetails env pool host) = Inr r \<longrightarrow>
             res_id r = row_id cached \<and> res_scanned_at r = row_start_time cached
           \<and> res_grade r = row_grade cached \<and> res_score r = row_score cached
           \<and> (\<exists>full. scanner env (asSiteKey site) (clock pool) = Inr full
                 \<and> res_fullDetails_scan r = result_scan full
                 \<and> res_fullDetails_tests r = tests full))
       \<and> (\<exists>env' pool' host' r'.
             fst (scanFullDetails env' pool' host') = Inr r'
           \<and> res_scanned_at r' < clock pool'
           \<and> res_score r' \<noteq> score (res_fullDetails_scan r'))"
proof -
  have eq: "scanFullDetails env pool host =
              scanOrReturnRecentWithFullDetails env pool site (cooldown env)"
    using assms(1,2) by (rule scanFullDetails_eq)
  have rs: "rowStage env pool site (cooldown env) = (cached, pool)"
    using assms(3) by (rule rowStage_cached)
  have a: "scans (snd (scanFullDetails env pool host)) = scans pool"
    by (simp add: eq sorr_world rs)
  have b: "events (snd (scanFullDetails env pool host)) = events pool @ [Retrieval (asSiteKey site)]"
    by (simp add: eq sorr_world rs)
  have c: "\<forall>r. fst (scanFullDetails env pool host) = Inr r \<longrightarrow>
             res_id r = row_id cached \<and> res_scanned_at r = row_start_time cached
           \<and> res_grade r = row_grade cached \<and> res_score r = row_score cached
           \<and> (\<exists>full. scanner env (asSiteKey site) (clock pool) = Inr full
                 \<and> res_fullDetails_scan r = result_scan full
                 \<and> res_fullDetails_tests r = tests full)"
  proof (intro allI impI)
    fix r assume "fst (scanFullDetails env pool host) = Inr r"
    then have out: "fst (scanOrReturnRecentWithFullDetails env pool site (cooldown env)) = Inr r"
      by (simp add: eq)
    from sorr_summary [OF out] sorr_fullDetails [OF out]
    show "res_id r = row_id cached \<and> res_scanned_at r = row_start_time cached
           \<and> res_grade r = row_grade cached \<and> res_score r = row_score cached
           \<and> (\<exists>full. scanner env (asSiteKey site) (clock pool) = Inr full
                 \<and> res_fullDetails_scan r = result_scan full
                 \<and> res_fullDetails_tests r = tests full)"
      by (simp add: rs)
  qed
  have d: "\<exists>env' pool' host' r'.
             fst (scanFullDetails env' pool' host') = Inr r'
           \<and> res_scanned_at r' < clock pool'
           \<and> res_score r' \<noteq> score (res_fullDetails_scan r')"
    using cached_example by blast
  from a b c d show ?thesis by blast
qed

lemma example_cached:
  "selectScanLatestScanBySite cached_world (asSiteKey example_site) (cooldown example_env)
     = Some cached_row"
  by (simp add: selectScanLatestScanBySite_def cached_world_def cached_row_def example_site_def
      asSiteKey_def example_env_def)

theorem cached_request_persists_nothing_witness:
  "selectScanLatestScanBySite cached_world (asSiteKey example_site) (cooldown example_env)
     = Some cached_row
   \<and> scans (snd (scanFullDetails example_env cached_world ''a.io'')) = scans cached_world
   \<and> events (snd (scanFullDetails example_env cached_world ''a.io''))
       = events cached_world @ [Retrieval ''a.io'']"
proof -
  have a: "fromSiteString example_env (toLowerCase (trim ''a.io'')) = Inr example_site"
    by (simp add: example_normalized example_env_def example_parse)
  have b: "checkSitename example_env example_site = Inr example_site"
    by (simp add: example_env_def)
  have k: "asSiteKey example_site = ''a.io''"
    by (simp add: asSiteKey_def example_site_def)
  from cached_request_persists_nothing [OF a b example_cached] example_cached k
  show ?thesis by simp
qed







text \<open>
  The bound is for requests handled one after the other. Nothing serialises two
  requests, or two entries of a batch, for one site key: when both lookups are answered
  before either request has persisted its row, both find nothing and both run
  \<open>executeScan\<close>.
\<close>

lemma afterLookup_eq:
  "scanOrReturnRecentWithFullDetails env pool site age =
     afterLookup env pool site (selectScanLatestScanBySite pool (asSiteKey site) age)"
  by (simp add: scanOrReturnRecentWithFullDetails_def afterLookup_def)

lemma overlapping_requests_execute_twice:
  "selectScanLatestScanBySite empty_world (asSiteKey example_site) 60 = None
   \<and> events (snd (afterLookup example_env
                   (snd (afterLookup example_env empty_world example_site None))
                   example_site None))
       = [ExecuteScan ''a.io'', Retrieval ''a.io'', Retrieval ''a.io'',
          ExecuteScan ''a.io'', Retrieval ''a.io'', Retrieval ''a.io'']"
  by (simp add: afterLookup_def executeScan_eq scan_def selectScanLatestScanBySite_def
      empty_world_def example_site_def asSiteKey_def example_env_def example_scanner_def
      split: sum.splits)

section \<open>Properties of the batch endpoint\<close>




lemma coercion_examples:
  "scanBatchFullDetailsSchema (JObj [(''urls'', JNull)]) = Some [[]]"
  "scanBatchFullDetailsSchema (JObj [(''urls'', JNum 5)]) = Some [''5'']"
  "scanBatchFullDetailsSchema (JObj [(''urls'', JArr [JArr [JStr ''a.io''], JBool True])])
     = Some [''a.io'', ''true'']"
  "scanBatchFullDetailsSchema (JObj [(''urls'', JObj [])]) = None"
  "scanBatchFullDetailsSchema (JObj [(''urls'', JArr [JObj []])]) = None"
  "scanBatchFullDetailsSchema (JArr [JObj [(''urls'', JArr [JStr ''a.io''])]]) = None"
  by code_simp+






lemma proto_normalizedUrls:
  "normalizedUrls [''__proto__'', '' __PROTO__ ''] = [''__proto__'']"
  by code_simp

lemma proto_schema:
  "scanBatchFullDetailsSchema (JObj [(''urls'', JArr [JStr ''__proto__'', JStr '' __PROTO__ ''])])
     = Some [''__proto__'', '' __PROTO__ '']"
  by (simp add: scanBatchFullDetailsSchema_def get_property_def MAX_BATCH_SIZE_def)

text \<open>
  Claim C3 fails on the code. The urls \<open>"__proto__"\<close> and \<open>" __PROTO__ "\<close> have one
  normalized form and \<open>scanSingleUrl\<close> is called once for it, but \<open>results[item] = result\<close>
  with \<open>item = "__proto__"\<close> stores no own property: the response has no key for this
  form. For every other form the keys are as claimed (lemmas \<open>normalizedUrls_set\<close>,
  \<open>normalizedUrls_distinct\<close> and \<open>batch_keys\<close>).
\<close>

theorem batch_loses_proto_key:
  "normalizedUrls [''__proto__'', '' __PROTO__ ''] = [''__proto__'']
   \<and> scanBatchFullDetails env pool
        (JObj [(''urls'', JArr [JStr ''__proto__'', JStr '' __PROTO__ ''])])
      = (Reply200 [], snd (scanSingleUrl env pool ''__proto__''))"
  by (simp add: scanBatchFullDetails_def proto_schema scanBatchFullDetails_handler_def
      proto_normalizedUrls runWithConcurrency_def set_property_def split: prod.splits)

lemma uniqueUrls_set:
  "set (map normalized (uniqueUrls seen urls)) = normalized ` set urls - set seen"
  by (induction seen urls rule: uniqueUrls.induct) auto

lemma uniqueUrls_distinct: "distinct (map normalized (uniqueUrls seen urls))"
  by (induction seen urls rule: uniqueUrls.induct) (auto simp: uniqueUrls_set simp del: set_map)

lemma normalizedUrls_set: "set (normalizedUrls urls) = normalized ` set urls"
  using uniqueUrls_set [of "[]" urls] by (simp add: normalizedUrls_def normalized_def [abs_def])

lemma normalizedUrls_distinct: "distinct (normalizedUrls urls)"
  using uniqueUrls_distinct [of "[]" urls] by (simp add: normalizedUrls_def normalized_def [abs_def])

lemma set_property_keys:
  "fst ` set (set_property obj key v) = fst ` set obj \<union> ({key} - {''__proto__''})"
  by (auto simp: set_property_def dom_update)

lemma rwc_loop_keys:
  "fst ` set (fst (rwc_loop fn items res pool)) =
     fst ` set res \<union> (set items - {''__proto__''})"
proof (induction items arbitrary: res pool)
  case Nil
  then show ?case by simp
next
  case (Cons item items)
  obtain result pool' where f: "fn pool item = (result, pool')" by (cases "fn pool item")
  show ?case
    using Cons [of "set_property res item result" pool']
    by (auto simp: f set_property_keys)
qed

lemma batch_keys:
  "fst ` set (fst (scanBatchFullDetails_handler env pool urls)) =
     normalized ` set urls - {''__proto__''}"
  by (simp add: scanBatchFullDetails_handler_def runWithConcurrency_def rwc_loop_keys
      normalizedUrls_set)

lemma scanSingleUrl_invalid:
  "fromSiteString env (toLowerCase (trim url)) = Inl err \<Longrightarrow>
     scanSingleUrl env pool url = (caught err, pool)"
  by (simp add: scanSingleUrl_def)

lemma scanSingleUrl_unresolved:
  "fromSiteString env (toLowerCase (trim url)) = Inr site0 \<Longrightarrow>
   checkSitename env site0 = Inl err \<Longrightarrow>
     scanSingleUrl env pool url = (caught err, pool)"
  by (simp add: scanSingleUrl_def)

lemma scanSingleUrl_scan_error:
  "fromSiteString env (toLowerCase (trim url)) = Inr site0 \<Longrightarrow>
   checkSitename env site0 = Inr site \<Longrightarrow>
   scanner env (asSiteKey site) (clock pool) = Inl err \<Longrightarrow>
     fst (scanSingleUrl env pool url) = caught err"
  by (simp add: scanSingleUrl_def scanWithFullDetails_eq sorr_eq split: prod.splits sum.splits)

lemma success_caught: "\<not> success (caught err)"
  by (simp add: caught_def)

lemma proto_normalized: "toLowerCase (trim ''__proto__'') = ''__proto__''"
  by code_simp

lemma proto_aio_normalizedUrls: "normalizedUrls [''__proto__'', ''a.io''] = [''__proto__'', ''a.io'']"
  by code_simp

lemma proto_invalid_example:
  "scanSingleUrl example_env pool ''__proto__'' =
     (Failed ''invalid-hostname'' ''InvalidHostNameError'' ''hostname is invalid'', pool)"
proof -
  have "fromSiteString example_env (toLowerCase (trim ''__proto__'')) = Inl invalidHostname"
    by (simp add: proto_normalized example_env_def example_parse_proto)
  then have "scanSingleUrl example_env pool ''__proto__'' = (caught invalidHostname, pool)"
    by (rule scanSingleUrl_invalid)
  then show ?thesis by (simp add: caught_def invalidHostname_def)
qed

text \<open>
  Claim C4 fails on the code at the same key. In the example environment the entry
  \<open>"__proto__"\<close> fails with \<open>invalid-hostname\<close> and \<open>scanSingleUrl\<close> returns the failure
  object for it, the entry \<open>a.io\<close> is still processed, but the response has the key \<open>a.io\<close>
  only: the failed entry is not reported. That no failure of an entry is thrown is lemmas
  \<open>scanSingleUrl_invalid\<close>, \<open>scanSingleUrl_unresolved\<close> and \<open>scanSingleUrl_scan_error\<close>.
\<close>

theorem batch_failed_entry_not_reported:
  "fst (scanSingleUrl example_env empty_world ''__proto__'') =
     Failed ''invalid-hostname'' ''InvalidHostNameError'' ''hostname is invalid''
   \<and> reply_keys (fst (scanBatchFullDetails example_env empty_world
         (JObj [(''urls'', JArr [JStr ''__proto__'', JStr ''a.io''])]))) = [''a.io'']"
proof -
  have schema: "scanBatchFullDetailsSchema (JObj [(''urls'', JArr [JStr ''__proto__'', JStr ''a.io''])])
     = Some [''__proto__'', ''a.io'']"
    by (simp add: scanBatchFullDetailsSchema_def get_property_def MAX_BATCH_SIZE_def)
  have "reply_keys (fst (scanBatchFullDetails example_env empty_world
         (JObj [(''urls'', JArr [JStr ''__proto__'', JStr ''a.io''])]))) = [''a.io'']"
    by (simp add: scanBatchFullDetails_def schema scanBatchFullDetails_handler_def
      proto_aio_normalizedUrls runWithConcurrency_def proto_invalid_example set_property_def
      reply_keys_def split: prod.splits)
  then show ?thesis by (simp add: proto_invalid_example)
qed

section \<open>Properties of the schedules\<close>

lemma in_flight_init: "0 < limit \<Longrightarrow> in_flight_bounded limit (rwc_init items)"
  by (simp add: in_flight_bounded_def rwc_init_def)

lemma length_removeAll_member: "x \<in> set xs \<Longrightarrow> length (removeAll x xs) < length xs"
  by (induction xs) (auto simp: less_Suc_eq_le length_removeAll_less_eq)

lemma in_flight_step:
  assumes "rwc_step limit s s'" and "in_flight_bounded limit s"
  shows "in_flight_bounded limit s'"
  using assms
proof (cases rule: rwc_step.cases)
  case (call item items)
  with assms(2) show ?thesis by (auto simp: in_flight_bounded_def)
next
  case (settle p item result)
  then have "length (removeAll (p, item) (executing s)) < length (executing s)"
    by (simp add: length_removeAll_member)
  with settle assms(2) show ?thesis by (auto simp: in_flight_bounded_def)
qed

lemma in_flight_reachable:
  assumes "(rwc_step limit)\<^sup>*\<^sup>* (rwc_init items) s" and "0 < limit"
  shows "in_flight_bounded limit s"
  using assms
proof (induction rule: rtranclp_induct)
  case base
  then show ?case by (simp add: in_flight_init)
next
  case (step s s')
  then show ?case using in_flight_step by blast
qed

text \<open>
  Claim C8. In every state that a batch request can reach, under any schedule, at most
  \<open>DEFAULT_CONCURRENCY = 5\<close> calls of \<open>scanSingleUrl\<close> are pending; a call makes its scans one
  after the other, so at most five scans are in flight. The function \<open>runWithConcurrency\<close>
  above is one of these schedules (lemma \<open>runWithConcurrency_is_a_run\<close>), and in all of
  them \<open>fn\<close> is called once per item (lemma \<open>rwc_calls_reachable\<close>).
\<close>

theorem at_most_five_in_flight:
  assumes "(rwc_step DEFAULT_CONCURRENCY)\<^sup>*\<^sup>* (rwc_init (normalizedUrls urls)) s"
  shows "length (executing s) \<le> 5"
proof -
  have "0 < DEFAULT_CONCURRENCY" by (simp add: DEFAULT_CONCURRENCY_def)
  with assms have "in_flight_bounded DEFAULT_CONCURRENCY s" by (rule in_flight_reachable)
  then show ?thesis by (simp add: in_flight_bounded_def DEFAULT_CONCURRENCY_def)
qed

lemma rwc_calls_reachable:
  assumes "(rwc_step limit)\<^sup>*\<^sup>* (rwc_init items) s"
  shows "started s + length (todo s) = length items"
  using assms
proof (induction rule: rtranclp_induct)
  case base
  then show ?case by (simp add: rwc_init_def)
next
  case (step s s')
  from step.hyps(2) step.IH show ?case by (cases rule: rwc_step.cases) auto
qed

lemma rwc_keys_reachable:
  assumes "(rwc_step limit)\<^sup>*\<^sup>* (rwc_init items) s"
  shows "fst ` set (results s) \<union> ((snd ` set (executing s) \<union> set (todo s)) - {''__proto__''})
           = set items - {''__proto__''}
         \<and> snd ` set (executing s) \<union> set (todo s) \<subseteq> set items"
  using assms
proof (induction rule: rtranclp_induct)
  case base
  then show ?case by (simp add: rwc_init_def)
next
  case (step s s')
  from step.hyps(2) show ?case
  proof (cases rule: rwc_step.cases)
    case (call item items')
    with step.IH show ?thesis by auto
  next
    case (settle p item result)
    define A where "A = snd ` set (removeAll (p, item) (executing s))"
    have ex: "snd ` set (executing s) = insert item A"
    proof
      show "snd ` set (executing s) \<subseteq> insert item A"
        unfolding A_def by force
      show "insert item A \<subseteq> snd ` set (executing s)"
        unfolding A_def using settle(2) by force
    qed
    have keys: "fst ` set (results s') = fst ` set (results s) \<union> ({item} - {''__proto__''})"
      by (simp add: settle(1) set_property_keys)
    have "snd ` set (executing s') = A" and "todo s' = todo s"
      by (simp_all add: settle(1) A_def)
    with step.IH keys show ?thesis unfolding ex by auto
  qed
qed

lemma sequential_run:
  "(rwc_step limit)\<^sup>*\<^sup>*
     \<lparr>todo = items, executing = [], results = res, started = n, awaiting = False\<rparr>
     \<lparr>todo = [], executing = [], results = fst (rwc_loop fn items res pool),
      started = n + length items, awaiting = False\<rparr>"
proof (induction items arbitrary: res pool n)
  case Nil
  then show ?case by simp
next
  case (Cons item items)
  obtain result pool' where f: "fn pool item = (result, pool')" by (cases "fn pool item")
  let ?s0 = "\<lparr>todo = item # items, executing = [], results = res, started = n,
              awaiting = False\<rparr> :: 'a rwc_state"
  let ?s1 = "\<lparr>todo = items, executing = [(n, item)], results = res, started = Suc n,
              awaiting = (limit \<le> Suc 0)\<rparr> :: 'a rwc_state"
  let ?s2 = "\<lparr>todo = items, executing = [], results = set_property res item result,
              started = Suc n, awaiting = False\<rparr> :: 'a rwc_state"
  have "rwc_step limit ?s0 ?s1"
    using rwc_step.call [of ?s0 item items limit] by simp
  moreover have "rwc_step limit ?s1 ?s2"
    using rwc_step.settle [of n item ?s1 limit result] by simp
  moreover have "(rwc_step limit)\<^sup>*\<^sup>* ?s2
     \<lparr>todo = [], executing = [], results = fst (rwc_loop fn items (set_property res item result) pool'),
      started = Suc n + length items, awaiting = False\<rparr>"
    by (rule Cons.IH)
  ultimately show ?case by (simp add: f)
qed

lemma runWithConcurrency_is_a_run:
  "(rwc_step limit)\<^sup>*\<^sup>* (rwc_init items)
     \<lparr>todo = [], executing = [], results = fst (runWithConcurrency items fn limit pool),
      started = length items, awaiting = False\<rparr>"
  using sequential_run [of limit items "[]" 0 fn pool]
  by (simp add: rwc_init_def runWithConcurrency_def)

lemma six_normalizedUrls:
  "normalizedUrls [''a'', ''b'', ''c'', ''d'', ''e'', ''f''] = [''a'', ''b'', ''c'', ''d'', ''e'', ''f'']"
  by code_simp

lemma rwc_call_next:
  assumes "(rwc_step limit)\<^sup>*\<^sup>* s0 \<lparr>todo = item # items, executing = ex, results = res,
             started = n, awaiting = False\<rparr>"
  shows "(rwc_step limit)\<^sup>*\<^sup>* s0 \<lparr>todo = items, executing = (n, item) # ex, results = res,
             started = n + 1, awaiting = (limit \<le> length ex + 1)\<rparr>"
proof -
  have "rwc_step limit \<lparr>todo = item # items, executing = ex, results = res,
             started = n, awaiting = False\<rparr>
          \<lparr>todo = items, executing = (n, item) # ex, results = res,
             started = n + 1, awaiting = (limit \<le> length ex + 1)\<rparr>"
    using rwc_step.call [of "\<lparr>todo = item # items, executing = ex, results = res,
             started = n, awaiting = False\<rparr>" item items limit] by simp
  with assms show ?thesis by (rule rtranclp.rtrancl_into_rtrancl)
qed

lemma five_started:
  "(rwc_step 5)\<^sup>*\<^sup>* (rwc_init [''a'', ''b'', ''c'', ''d'', ''e'', ''f''])
     (\<lparr>todo = [''f''],
       executing = [(4, ''e''), (3, ''d''), (2, ''c''), (1, ''b''), (0, ''a'')],
       results = [], started = 5, awaiting = True\<rparr> :: 'r rwc_state)"
proof -
  have "(rwc_step 5)\<^sup>*\<^sup>* (rwc_init [''a'', ''b'', ''c'', ''d'', ''e'', ''f''])
     (\<lparr>todo = [''a'', ''b'', ''c'', ''d'', ''e'', ''f''], executing = [], results = [], started = 0,
       awaiting = False\<rparr> :: 'r rwc_state)"
    by (simp add: rwc_init_def)
  from rwc_call_next [OF this] have "(rwc_step 5)\<^sup>*\<^sup>* (rwc_init [''a'', ''b'', ''c'', ''d'', ''e'', ''f''])
     (\<lparr>todo = [''b'', ''c'', ''d'', ''e'', ''f''], executing = [(0, ''a'')], results = [], started = 1,
       awaiting = False\<rparr> :: 'r rwc_state)"
    by (simp add: eval_nat_numeral)
  from rwc_call_next [OF this] have "(rwc_step 5)\<^sup>*\<^sup>* (rwc_init [''a'', ''b'', ''c'', ''d'', ''e'', ''f''])
     (\<lparr>todo = [''c'', ''d'', ''e'', ''f''], executing = [(1, ''b''), (0, ''a'')], results = [],
       started = 2, awaiting = False\<rparr> :: 'r rwc_state)"
    by (simp add: eval_nat_numeral)
  from rwc_call_next [OF this] have "(rwc_step 5)\<^sup>*\<^sup>* (rwc_init [''a'', ''b'', ''c'', ''d'', ''e'', ''f''])
     (\<lparr>todo = [''d'', ''e'', ''f''], executing = [(2, ''c''), (1, ''b''), (0, ''a'')], results = [],
       started = 3, awaiting = False\<rparr> :: 'r rwc_state)"
    by (simp add: eval_nat_numeral)
  from rwc_call_next [OF this] have "(rwc_step 5)\<^sup>*\<^sup>* (rwc_init [''a'', ''b'', ''c'', ''d'', ''e'', ''f''])
     (\<lparr>todo = [''e'', ''f''], executing = [(3, ''d''), (2, ''c''), (1, ''b''), (0, ''a'')],
       results = [], started = 4, awaiting = False\<rparr> :: 'r rwc_state)"
    by (simp add: eval_nat_numeral)
  from rwc_call_next [OF this] show ?thesis
    by (simp add: eval_nat_numeral)
qed

theorem at_most_five_in_flight_witness:
  "(rwc_step DEFAULT_CONCURRENCY)\<^sup>*\<^sup>*
     (rwc_init (normalizedUrls [''a'', ''b'', ''c'', ''d'', ''e'', ''f'']))
     (\<lparr>todo = [''f''],
       executing = [(4, ''e''), (3, ''d''), (2, ''c''), (1, ''b''), (0, ''a'')],
       results = [], started = 5, awaiting = True\<rparr> :: batch_entry rwc_state)
   \<and> length (executing (\<lparr>todo = [''f''],
       executing = [(4, ''e''), (3, ''d''), (2, ''c''), (1, ''b''), (0, ''a'')],
       results = [], started = 5, awaiting = True\<rparr> :: batch_entry rwc_state)) \<le> 5"
proof -
  have r: "(rwc_step DEFAULT_CONCURRENCY)\<^sup>*\<^sup>*
     (rwc_init (normalizedUrls [''a'', ''b'', ''c'', ''d'', ''e'', ''f'']))
     (\<lparr>todo = [''f''],
       executing = [(4, ''e''), (3, ''d''), (2, ''c''), (1, ''b''), (0, ''a'')],
       results = [], started = 5, awaiting = True\<rparr> :: batch_entry rwc_state)"
    unfolding six_normalizedUrls DEFAULT_CONCURRENCY_def by (rule five_started)
  from at_most_five_in_flight [OF r] r show ?thesis by blast
qed

section \<open>Properties of the canonicalization\<close>

lemma isLabelChar_plain:
  "isLabelChar c \<Longrightarrow>
     c \<noteq> CHR '':'' \<and> c \<noteq> CHR ''/'' \<and> c \<noteq> CHR ''?'' \<and> c \<noteq> CHR ''#'' \<and> c \<noteq> CHR ''.''
     \<and> \<not> isWhiteSpace c \<and> toLowerChar c = c"
  by (auto simp: isLabelChar_def isDigit_def isWhiteSpace_def toLowerChar_def)

lemma isDigit_plain:
  "isDigit c \<Longrightarrow>
     c \<noteq> CHR '':'' \<and> c \<noteq> CHR ''/'' \<and> c \<noteq> CHR ''?'' \<and> c \<noteq> CHR ''#''
     \<and> \<not> isWhiteSpace c \<and> toLowerChar c = c"
  by (auto simp: isDigit_def isWhiteSpace_def toLowerChar_def)

lemma labels_nonempty: "labels h \<noteq> []"
  by (induction h) (auto split: list.splits)

lemma labels_chars: "c \<in> set h \<Longrightarrow> c = CHR ''.'' \<or> (\<exists>l \<in> set (labels h). c \<in> set l)"
  by (induction h) (auto split: list.splits)

lemma validHostname_chars:
  assumes "validHostname h" and "c \<in> set h"
  shows "isLabelChar c \<or> c = CHR ''.''"
proof -
  from labels_chars [OF assms(2)] show ?thesis
  proof
    assume "c = CHR ''.''"
    then show ?thesis by simp
  next
    assume "\<exists>l \<in> set (labels h). c \<in> set l"
    then obtain l where "l \<in> set (labels h)" and "c \<in> set l" by blast
    with assms(1) have "isLabelChar c"
      by (auto simp: validHostname_def validLabel_def list_all_iff)
    then show ?thesis by simp
  qed
qed

lemma validHostname_nonempty: "validHostname h \<Longrightarrow> h \<noteq> []"
  by (auto simp: validHostname_def validLabel_def)

lemma decimal_nonempty: "decimal n \<noteq> []"
  by (subst decimal.simps) simp

lemma decimal_digits: "list_all isDigit (decimal n)"
proof (induction n rule: decimal.induct)
  case (1 n)
  show ?case
  proof (cases "n < 10")
    case True
    then show ?thesis by (subst decimal.simps) (simp add: isDigit_def)
  next
    case False
    moreover have "isDigit (char_of (48 + n mod 10))"
      by (simp add: isDigit_def)
    ultimately show ?thesis using "1" by (subst decimal.simps) simp
  qed
qed

lemma decimal_value: "foldl (\<lambda>n c. 10 * n + (of_char c - 48)) 0 (decimal n) = n"
proof (induction n rule: decimal.induct)
  case (1 n)
  show ?case
  proof (cases "n < 10")
    case True
    then show ?thesis by (subst decimal.simps) simp
  next
    case False
    have "n mod 10 < 10" by simp
    then have "(48 + n mod 10) mod 256 = 48 + n mod 10" by simp
    with False "1" show ?thesis by (subst decimal.simps) simp
  qed
qed

lemma parsePort_decimal: "parsePort (decimal n) = Some n"
  by (simp add: parsePort_def decimal_nonempty decimal_digits decimal_value)


lemma takeWhile_prefix:
  assumes "\<forall>c \<in> set xs. P c" and "ys = [] \<or> \<not> P (hd ys)"
  shows "takeWhile P (xs @ ys) = xs" and "dropWhile P (xs @ ys) = ys"
proof -
  from assms(2) have "takeWhile P ys = []" and "dropWhile P ys = ys"
    by (cases ys; simp)+
  with assms(1) show "takeWhile P (xs @ ys) = xs" and "dropWhile P (xs @ ys) = ys"
    by (simp_all add: takeWhile_append2 dropWhile_append2)
qed

lemma no_scheme:
  assumes colon: "\<forall>c \<in> set h. c \<noteq> CHR '':''"
    and dot: "CHR ''.'' \<in> set h \<or> h = ''localhost''"
  shows "stripScheme (h @ r) = h @ r"
proof -
  have a: "take 7 (h @ r) \<noteq> ''http://''"
  proof
    assume eq: "take 7 (h @ r) = ''http://''"
    show False
    proof (cases "length h < 7")
      case True
      with eq have "h @ take (7 - length h) r = ''http://''" by simp
      then have "h = take (length h) ''http://''" by (metis append_eq_conv_conj)
      then obtain k where h: "h = take k ''http://''" and "k < 7" using True by blast
      then have "k = 0 \<or> k = 1 \<or> k = 2 \<or> k = 3 \<or> k = 4 \<or> k = 5 \<or> k = 6" by arith
      with h colon dot show False by (elim disjE) simp_all
    next
      case False
      with eq have "take 7 h = ''http://''" by simp
      then have "CHR '':'' \<in> set (take 7 h)" by simp
      then have "CHR '':'' \<in> set h" by (rule in_set_takeD)
      with colon show False by blast
    qed
  qed
  have b: "take 8 (h @ r) \<noteq> ''https://''"
  proof
    assume eq: "take 8 (h @ r) = ''https://''"
    show False
    proof (cases "length h < 8")
      case True
      with eq have "h @ take (8 - length h) r = ''https://''" by simp
      then have "h = take (length h) ''https://''" by (metis append_eq_conv_conj)
      then obtain k where h: "h = take k ''https://''" and "k < 8" using True by blast
      then have "k = 0 \<or> k = 1 \<or> k = 2 \<or> k = 3 \<or> k = 4 \<or> k = 5 \<or> k = 6 \<or> k = 7" by arith
      with h colon dot show False by (elim disjE) simp_all
    next
      case False
      with eq have "take 8 h = ''https://''" by simp
      then have "CHR '':'' \<in> set (take 8 h)" by simp
      then have "CHR '':'' \<in> set h" by (rule in_set_takeD)
      with colon show False by blast
    qed
  qed
  from a b show ?thesis by (simp add: stripScheme_def)
qed


lemma canonicalSite_fixed:
  assumes "canonicalSite st"
  shows "Site_fromSiteString (asSiteKey st) = Inr st"
proof -
  define h where "h = hostname st"
  define ps where "ps = (case port st of None \<Rightarrow> [] | Some n \<Rightarrow> CHR '':'' # decimal n)"
  define p where "p = (case path st of None \<Rightarrow> [] | Some q \<Rightarrow> q)"
  have key: "asSiteKey st = h @ ps @ p"
    by (simp add: asSiteKey_def h_def ps_def p_def)
  from assms have valid: "validHostname h" and noip: "\<not> isIpLiteral h"
    by (simp_all add: canonicalSite_def h_def)
  have hchars: "\<forall>c \<in> set h. isLabelChar c \<or> c = CHR ''.''"
    using valid validHostname_chars by blast
  have hplain: "\<forall>c \<in> set h. c \<noteq> CHR '':'' \<and> c \<noteq> CHR ''/'' \<and> c \<noteq> CHR ''?'' \<and> c \<noteq> CHR ''#''
                  \<and> \<not> isWhiteSpace c \<and> toLowerChar c = c"
  proof
    fix c assume "c \<in> set h"
    with hchars have "isLabelChar c \<or> c = CHR ''.''" by blast
    then show "c \<noteq> CHR '':'' \<and> c \<noteq> CHR ''/'' \<and> c \<noteq> CHR ''?'' \<and> c \<noteq> CHR ''#''
                  \<and> \<not> isWhiteSpace c \<and> toLowerChar c = c"
    proof
      assume "isLabelChar c"
      then show ?thesis using isLabelChar_plain [of c] by blast
    next
      assume "c = CHR ''.''"
      then show ?thesis by (simp add: isWhiteSpace_def toLowerChar_def)
    qed
  qed
  have hne: "h \<noteq> []" using valid by (rule validHostname_nonempty)
  have psplain: "\<forall>c \<in> set ps. c \<noteq> CHR ''/'' \<and> c \<noteq> CHR ''?'' \<and> c \<noteq> CHR ''#'' \<and> \<not> isWhiteSpace c"
  proof
    fix c assume "c \<in> set ps"
    then have "c = CHR '':'' \<or> isDigit c"
      using decimal_digits by (auto simp: ps_def list_all_iff split: option.splits)
    then show "c \<noteq> CHR ''/'' \<and> c \<noteq> CHR ''?'' \<and> c \<noteq> CHR ''#'' \<and> \<not> isWhiteSpace c"
    proof
      assume "c = CHR '':''"
      then show ?thesis by (simp add: isWhiteSpace_def)
    next
      assume "isDigit c"
      then show ?thesis using isDigit_plain [of c] by blast
    qed
  qed
  have pshd: "ps = [] \<or> hd ps = CHR '':''"
    by (simp add: ps_def split: option.splits)
  have port: "optionalPort ps = Inr (port st)"
    using assms
    by (auto simp: ps_def optionalPort_def parsePort_decimal canonicalSite_def split: option.splits)
  have pplain: "\<forall>c \<in> set p. c \<noteq> CHR ''?'' \<and> c \<noteq> CHR ''#'' \<and> \<not> isWhiteSpace c"
    using assms by (auto simp: p_def canonicalSite_def split: option.splits)
  have phd: "p = [] \<or> hd p = CHR ''/''"
    using assms by (auto simp: p_def canonicalSite_def split: option.splits)
  have path: "(if p = [] then None else Some p) = path st"
    using assms by (auto simp: p_def canonicalSite_def split: option.splits)
  have nonempty: "h @ ps @ p \<noteq> []" using hne by simp
  have nows: "\<not> list_ex isWhiteSpace (h @ ps @ p)"
  proof -
    have "\<forall>c \<in> set h. \<not> isWhiteSpace c" using hplain by blast
    moreover have "\<forall>c \<in> set ps. \<not> isWhiteSpace c" using psplain by blast
    moreover have "\<forall>c \<in> set p. \<not> isWhiteSpace c" using pplain by blast
    ultimately show ?thesis by (auto simp: list_ex_iff)
  qed
  have scheme: "stripScheme (h @ ps @ p) = h @ ps @ p"
  proof (rule no_scheme)
    show "\<forall>c \<in> set h. c \<noteq> CHR '':''" using hplain by blast
    show "CHR ''.'' \<in> set h \<or> h = ''localhost''" using valid by (simp add: validHostname_def)
  qed
  have query: "stripQueryFragment (h @ ps @ p) = h @ ps @ p"
  proof -
    have "\<forall>c \<in> set h. c \<noteq> CHR ''?'' \<and> c \<noteq> CHR ''#''" using hplain by blast
    moreover have "\<forall>c \<in> set ps. c \<noteq> CHR ''?'' \<and> c \<noteq> CHR ''#''" using psplain by blast
    moreover have "\<forall>c \<in> set p. c \<noteq> CHR ''?'' \<and> c \<noteq> CHR ''#''" using pplain by blast
    ultimately show ?thesis by (auto simp: stripQueryFragment_def takeWhile_eq_all_conv)
  qed
  have slash: "splitBefore (CHR ''/'') (h @ ps @ p) = (h @ ps, p)"
  proof -
    have "\<forall>c \<in> set (h @ ps). c \<noteq> CHR ''/''" using hplain psplain by auto
    moreover have "p = [] \<or> \<not> hd p \<noteq> CHR ''/''" using phd by simp
    ultimately have "takeWhile (\<lambda>c. c \<noteq> CHR ''/'') ((h @ ps) @ p) = h @ ps"
      and "dropWhile (\<lambda>c. c \<noteq> CHR ''/'') ((h @ ps) @ p) = p"
      by (rule takeWhile_prefix)+
    then show ?thesis by (simp add: splitBefore_def)
  qed
  have colon: "splitBefore (CHR '':'') (h @ ps) = (h, ps)"
  proof -
    have "\<forall>c \<in> set h. c \<noteq> CHR '':''" using hplain by auto
    moreover have "ps = [] \<or> \<not> hd ps \<noteq> CHR '':''" using pshd by simp
    ultimately have "takeWhile (\<lambda>c. c \<noteq> CHR '':'') (h @ ps) = h"
      and "dropWhile (\<lambda>c. c \<noteq> CHR '':'') (h @ ps) = ps"
      by (rule takeWhile_prefix)+
    then show ?thesis by (simp add: splitBefore_def)
  qed
  have lower: "toLowerCase h = h"
    using hplain by (simp add: toLowerCase_def map_idI)
  have "makeSite h ps p = Inr st"
    using valid noip port path by (simp add: makeSite_def h_def)
  then show ?thesis
    using nonempty nows by (simp add: Site_fromSiteString_def key scheme query slash colon lower)
qed

lemma optionalPort_range:
  "optionalPort portPart = Inr (Some n) \<Longrightarrow> 1 \<le> n \<and> n \<le> 65535"
  by (cases portPart) (auto simp: optionalPort_def split: option.splits if_splits)

lemma makeSite_Inr:
  assumes "makeSite host portPart p = Inr st"
  shows "validHostname host \<and> \<not> isIpLiteral host
       \<and> (\<exists>n. optionalPort portPart = Inr n
              \<and> st = \<lparr>hostname = host, port = n, path = (if p = [] then None else Some p)\<rparr>)"
proof -
  from assms have v: "validHostname host \<and> \<not> isIpLiteral host"
    by (auto simp: makeSite_def split: if_splits)
  with assms have "(case optionalPort portPart of
           Inl err \<Rightarrow> Inl err
         | Inr n \<Rightarrow> Inr \<lparr>hostname = host, port = n, path = (if p = [] then None else Some p)\<rparr>)
        = Inr st"
    by (simp add: makeSite_def)
  then have "\<exists>n. optionalPort portPart = Inr n
              \<and> st = \<lparr>hostname = host, port = n, path = (if p = [] then None else Some p)\<rparr>"
    by (cases "optionalPort portPart") auto
  with v show ?thesis by blast
qed

lemma Site_fromSiteString_canonical:
  assumes "Site_fromSiteString input = Inr st"
  shows "canonicalSite st"
proof -
  define s where "s = stripQueryFragment (stripScheme input)"
  define authority where "authority = takeWhile (\<lambda>c. c \<noteq> CHR ''/'') s"
  define p where "p = dropWhile (\<lambda>c. c \<noteq> CHR ''/'') s"
  define h where "h = takeWhile (\<lambda>c. c \<noteq> CHR '':'') authority"
  define portPart where "portPart = dropWhile (\<lambda>c. c \<noteq> CHR '':'') authority"
  have accepted: "\<not> (input = [] \<or> list_ex isWhiteSpace input)"
  proof
    assume "input = [] \<or> list_ex isWhiteSpace input"
    then have "Site_fromSiteString input = Inl invalidHostname"
      by (simp add: Site_fromSiteString_def)
    with assms show False by simp
  qed
  then have "Site_fromSiteString input = makeSite (toLowerCase h) portPart p"
    by (simp add: Site_fromSiteString_def splitBefore_def s_def authority_def p_def h_def
        portPart_def)
  with assms have "makeSite (toLowerCase h) portPart p = Inr st" by simp
  from makeSite_Inr [OF this] obtain n where
    valid: "validHostname (toLowerCase h)" and noip: "\<not> isIpLiteral (toLowerCase h)"
    and port: "optionalPort portPart = Inr n"
    and st: "st = \<lparr>hostname = toLowerCase h, port = n, path = (if p = [] then None else Some p)\<rparr>"
    by blast
  have range: "case n of None \<Rightarrow> True | Some k \<Rightarrow> 1 \<le> k \<and> k \<le> 65535"
    using port optionalPort_range by (cases n) auto
  have "set s \<subseteq> set input"
  proof -
    have "set s \<subseteq> set (stripScheme input)"
      unfolding s_def stripQueryFragment_def by (auto dest: set_takeWhileD)
    moreover have "set (stripScheme input) \<subseteq> set input"
      unfolding stripScheme_def by (auto dest: in_set_dropD)
    ultimately show ?thesis by blast
  qed
  moreover have ps: "set p \<subseteq> set s" unfolding p_def by (auto dest: set_dropWhileD)
  moreover have "\<forall>c \<in> set input. \<not> isWhiteSpace c"
    using accepted by (simp add: list_ex_iff)
  ultimately have pws: "\<forall>c \<in> set p. \<not> isWhiteSpace c" by blast
  have "\<forall>c \<in> set s. c \<noteq> CHR ''?'' \<and> c \<noteq> CHR ''#''"
    unfolding s_def stripQueryFragment_def by (auto dest: set_takeWhileD)
  with ps have pq: "\<forall>c \<in> set p. c \<noteq> CHR ''?'' \<and> c \<noteq> CHR ''#''" by blast
  have phd: "p \<noteq> [] \<longrightarrow> hd p = CHR ''/''"
    using hd_dropWhile [of "\<lambda>c. c \<noteq> CHR ''/''" s] by (auto simp: p_def)
  have "case path st of
            None \<Rightarrow> True
          | Some q \<Rightarrow> q \<noteq> [] \<and> hd q = CHR ''/''
              \<and> (\<forall>c \<in> set q. c \<noteq> CHR ''?'' \<and> c \<noteq> CHR ''#'' \<and> \<not> isWhiteSpace c)"
    using pws pq phd by (simp add: st)
  with valid noip range show ?thesis by (simp add: canonicalSite_def st)
qed

lemma Site_fromSiteString_idem:
  "Site_fromSiteString input = Inr st \<Longrightarrow> Site_fromSiteString (asSiteKey st) = Inr st"
  by (rule canonicalSite_fixed) (rule Site_fromSiteString_canonical)

lemma canonicalize_idem:
  "canonicalize input = Inr key \<Longrightarrow> canonicalize key = Inr key"
  by (auto simp: canonicalize_def Site_fromSiteString_idem split: sum.splits)


lemma toLowerChar_idem: "toLowerChar (toLowerChar c) = toLowerChar c"
  unfolding toLowerChar_def Let_def by auto

lemma isWhiteSpace_toLowerChar: "isWhiteSpace (toLowerChar c) = isWhiteSpace c"
  unfolding toLowerChar_def Let_def isWhiteSpace_def by auto

lemma dropWhile_ws_lower:
  "dropWhile isWhiteSpace (map toLowerChar s) = map toLowerChar (dropWhile isWhiteSpace s)"
  by (induction s) (auto simp: isWhiteSpace_toLowerChar)

lemma trim_toLowerCase: "trim (toLowerCase s) = toLowerCase (trim s)"
  by (simp add: trim_def toLowerCase_def dropWhile_ws_lower rev_map)

lemma dropWhile_id: "xs = [] \<or> \<not> P (hd xs) \<Longrightarrow> dropWhile P xs = xs"
  by (cases xs) auto

lemma last_dropWhile: "dropWhile P xs \<noteq> [] \<Longrightarrow> last (dropWhile P xs) = last xs"
  by (induction xs) (auto split: if_splits)

lemma trim_fixed:
  assumes "t = [] \<or> (\<not> isWhiteSpace (hd t) \<and> \<not> isWhiteSpace (last t))"
  shows "trim t = t"
proof (cases "t = []")
  case True
  then show ?thesis by (simp add: trim_def)
next
  case False
  with assms have h: "\<not> isWhiteSpace (hd t)" and l: "\<not> isWhiteSpace (last t)" by auto
  from h False have "dropWhile isWhiteSpace t = t" by (simp add: dropWhile_id)
  moreover from l False have "dropWhile isWhiteSpace (rev t) = rev t"
    by (simp add: dropWhile_id hd_rev)
  ultimately show ?thesis by (simp add: trim_def)
qed

lemma trim_trimmed:
  "trim s = [] \<or> (\<not> isWhiteSpace (hd (trim s)) \<and> \<not> isWhiteSpace (last (trim s)))"
proof (cases "trim s = []")
  case True
  then show ?thesis by simp
next
  case False
  define u where "u = dropWhile isWhiteSpace s"
  define v where "v = dropWhile isWhiteSpace (rev u)"
  have t: "trim s = rev v" by (simp add: trim_def u_def v_def)
  with False have v: "v \<noteq> []" by simp
  then have u: "u \<noteq> []" by (auto simp: v_def)
  have "\<not> isWhiteSpace (hd v)" using v unfolding v_def by (rule hd_dropWhile)
  then have l: "\<not> isWhiteSpace (last (trim s))" using v by (simp add: t last_rev)
  have "last v = last (rev u)" using v unfolding v_def by (rule last_dropWhile)
  then have "hd (trim s) = hd u" using u v by (simp add: t hd_rev last_rev)
  moreover have "\<not> isWhiteSpace (hd u)" using u unfolding u_def by (rule hd_dropWhile)
  ultimately show ?thesis using l by simp
qed

lemma trim_idem: "trim (trim s) = trim s"
  by (rule trim_fixed) (rule trim_trimmed)

lemma toLowerCase_idem: "toLowerCase (toLowerCase s) = toLowerCase s"
  by (simp add: toLowerCase_def toLowerChar_idem)

lemma normalized_idem: "normalized (normalized s) = normalized s"
  by (simp add: normalized_def trim_toLowerCase trim_idem toLowerCase_idem)

lemma normalized_fixed:
  assumes "\<forall>c \<in> set s. \<not> isWhiteSpace c \<and> toLowerChar c = c"
  shows "normalized s = s"
proof -
  have "trim s = s"
  proof (rule trim_fixed)
    show "s = [] \<or> (\<not> isWhiteSpace (hd s) \<and> \<not> isWhiteSpace (last s))"
      using assms by (cases "s = []") auto
  qed
  moreover have "toLowerCase s = s" using assms by (simp add: toLowerCase_def map_idI)
  ultimately show ?thesis by (simp add: normalized_def)
qed

lemma host_char_plain:
  assumes "validHostname h" and "c \<in> set h"
  shows "\<not> isWhiteSpace c \<and> toLowerChar c = c"
proof -
  from assms have "isLabelChar c \<or> c = CHR ''.''" by (rule validHostname_chars)
  then show ?thesis
  proof
    assume "isLabelChar c"
    then show ?thesis using isLabelChar_plain [of c] by blast
  next
    assume "c = CHR ''.''"
    then show ?thesis by (simp add: isWhiteSpace_def toLowerChar_def)
  qed
qed

lemma port_char_plain:
  assumes "c \<in> set (CHR '':'' # decimal n)"
  shows "\<not> isWhiteSpace c \<and> toLowerChar c = c"
proof -
  from assms have "c = CHR '':'' \<or> isDigit c"
    using decimal_digits [of n] by (auto simp: list_all_iff)
  then show ?thesis
  proof
    assume "c = CHR '':''"
    then show ?thesis by (simp add: isWhiteSpace_def toLowerChar_def)
  next
    assume "isDigit c"
    then show ?thesis using isDigit_plain [of c] by blast
  qed
qed

lemma Site_path_chars:
  assumes "Site_fromSiteString input = Inr st" and "path st = Some q"
  shows "set q \<subseteq> set input"
proof -
  define s where "s = stripQueryFragment (stripScheme input)"
  define authority where "authority = takeWhile (\<lambda>c. c \<noteq> CHR ''/'') s"
  define p where "p = dropWhile (\<lambda>c. c \<noteq> CHR ''/'') s"
  define h where "h = takeWhile (\<lambda>c. c \<noteq> CHR '':'') authority"
  define portPart where "portPart = dropWhile (\<lambda>c. c \<noteq> CHR '':'') authority"
  have "\<not> (input = [] \<or> list_ex isWhiteSpace input)"
  proof
    assume "input = [] \<or> list_ex isWhiteSpace input"
    then have "Site_fromSiteString input = Inl invalidHostname"
      by (simp add: Site_fromSiteString_def)
    with assms(1) show False by simp
  qed
  then have "Site_fromSiteString input = makeSite (toLowerCase h) portPart p"
    by (simp add: Site_fromSiteString_def splitBefore_def s_def authority_def p_def h_def
        portPart_def)
  with assms(1) have "makeSite (toLowerCase h) portPart p = Inr st" by simp
  from makeSite_Inr [OF this] have "path st = (if p = [] then None else Some p)" by auto
  with assms(2) have "q = p" by (simp split: if_splits)
  moreover have "set p \<subseteq> set s" unfolding p_def by (auto dest: set_dropWhileD)
  moreover have "set s \<subseteq> set (stripScheme input)"
    unfolding s_def stripQueryFragment_def by (auto dest: set_takeWhileD)
  moreover have "set (stripScheme input) \<subseteq> set input"
    unfolding stripScheme_def by (auto dest: in_set_dropD)
  ultimately show ?thesis by blast
qed

lemma normalized_char: "c \<in> set (normalized x) \<Longrightarrow> toLowerChar c = c"
  by (auto simp: normalized_def toLowerCase_def toLowerChar_idem)

lemma canonical_key_normalized:
  assumes "Site_fromSiteString (normalized x) = Inr st"
  shows "normalized (asSiteKey st) = asSiteKey st"
proof (rule normalized_fixed, rule ballI)
  fix c assume c: "c \<in> set (asSiteKey st)"
  have can: "canonicalSite st" using assms by (rule Site_fromSiteString_canonical)
  from c have "c \<in> set (hostname st)
      \<or> (\<exists>n. port st = Some n \<and> c \<in> set (CHR '':'' # decimal n))
      \<or> (\<exists>q. path st = Some q \<and> c \<in> set q)"
    by (cases "port st"; cases "path st") (auto simp: asSiteKey_def)
  then consider (host) "c \<in> set (hostname st)"
    | (port) n where "port st = Some n" and "c \<in> set (CHR '':'' # decimal n)"
    | (path) q where "path st = Some q" and "c \<in> set q"
    by blast
  then show "\<not> isWhiteSpace c \<and> toLowerChar c = c"
  proof cases
    case host
    moreover have "validHostname (hostname st)" using can by (simp add: canonicalSite_def)
    ultimately show ?thesis using host_char_plain by blast
  next
    case port
    then show ?thesis using port_char_plain by blast
  next
    case path
    from can path(1) have "\<forall>c \<in> set q. \<not> isWhiteSpace c" by (simp add: canonicalSite_def)
    moreover have "set q \<subseteq> set (normalized x)" using assms path(1) by (rule Site_path_chars)
    ultimately show ?thesis using path(2) normalized_char by blast
  qed
qed

text \<open>
  Claim C9. For an input \<open>x\<close> the canonicalizer accepts, canonicalizing its canonical form
  gives that form again; the parsed site is the same, so the lookup of its host is the
  same too. The endpoints' \<open>trim().toLowerCase()\<close> is idempotent, it leaves the canonical
  key of a normalized input unchanged, and the two composed are idempotent.
\<close>

theorem canonicalization_idempotent:
  "(Site_fromSiteString x = Inr st \<longrightarrow> Site_fromSiteString (asSiteKey st) = Inr st)
   \<and> (canonicalize x = Inr key \<longrightarrow> canonicalize key = Inr key)
   \<and> normalized (normalized host) = normalized host
   \<and> (canonicalize (normalized x) = Inr key \<longrightarrow>
        normalized key = key \<and> canonicalize (normalized key) = Inr key)"
proof -
  have a: "canonicalize x = Inr key \<longrightarrow> canonicalize key = Inr key"
    by (simp add: canonicalize_idem)
  have b: "normalized (normalized host) = normalized host" by (rule normalized_idem)
  have c: "canonicalize (normalized x) = Inr key \<longrightarrow>
        normalized key = key \<and> canonicalize (normalized key) = Inr key"
  proof
    assume k: "canonicalize (normalized x) = Inr key"
    then obtain st where st: "Site_fromSiteString (normalized x) = Inr st"
      and key: "key = asSiteKey st"
      by (auto simp: canonicalize_def split: sum.splits)
    from st have n: "normalized key = key" unfolding key by (rule canonical_key_normalized)
    from k have "canonicalize key = Inr key" by (rule canonicalize_idem)
    with n show "normalized key = key \<and> canonicalize (normalized key) = Inr key" by simp
  qed
  have d: "Site_fromSiteString x = Inr st \<longrightarrow> Site_fromSiteString (asSiteKey st) = Inr st"
    by (simp add: Site_fromSiteString_idem)
  from a b c d show ?thesis by blast
qed

lemma example_canonicalize: "canonicalize ''https://A.io/x?y'' = Inr ''a.io/x''"
  by code_simp

theorem canonicalization_idempotent_witness:
  "canonicalize ''https://A.io/x?y'' = Inr ''a.io/x'' \<and> canonicalize ''a.io/x'' = Inr ''a.io/x''"
  using canonicalization_idempotent [where x = "''https://A.io/x?y''" and key = "''a.io/x''"]
    example_canonicalize
  by blast

end
